(* ===== verification/Ledger_Prelude.thy ===== *)
theory Ledger_Prelude
  imports Main "HOL-Library.Word"
begin

text \<open>
  Shared vocabulary of the token-module development: the named collections of
  unfolding rules the component theories fill, and the generic facts on finite sums
  of natural numbers and on machine words that the conservation proofs combine.
  Nothing here is specific to the token module.
\<close>

named_theorems storage_simps "characteristic equations of the storage primitives"
named_theorems op_defs "unfolding rules of the dispatchable calls"

subsection \<open>Sums over a finite support\<close>

text \<open>
  A balance map is summed over the finite set of its stored keys. Adding one more key
  whose weight is zero does not change the sum, and changing the weight of one key of
  the set changes the sum by the difference; both facts are stated additively so that
  no truncating \<open>nat\<close> subtraction appears.
\<close>

lemma sum_insert_zero:
  fixes f :: "'a \<Rightarrow> nat"
  assumes "finite A" and "c \<notin> A \<Longrightarrow> f c = 0"
  shows "sum f (insert c A) = sum f A"
  using assms by (cases "c \<in> A") (simp_all add: insert_absorb)

lemma sum_fun_upd_add:
  fixes f :: "'a \<Rightarrow> nat"
  assumes "finite A" and "c \<in> A"
  shows "sum (f(c := v)) A + f c = sum f A + v"
proof -
  have "sum (f(c := v)) A = v + sum (f(c := v)) (A - {c})"
    using assms by (simp add: sum.remove)
  moreover have "sum (f(c := v)) (A - {c}) = sum f (A - {c})"
    by (rule sum.cong) auto
  moreover have "sum f A = f c + sum f (A - {c})"
    using assms by (simp add: sum.remove)
  ultimately show ?thesis by simp
qed

lemma sum_two_le:
  fixes f :: "'a \<Rightarrow> nat"
  assumes "finite A" and "a \<in> A" and "b \<in> A" and "a \<noteq> b"
  shows "f a + f b \<le> sum f A"
proof -
  have "sum f {a, b} \<le> sum f A"
    using assms by (intro sum_mono2) auto
  with assms(4) show ?thesis by simp
qed

lemma sum_one_le:
  fixes f :: "'a \<Rightarrow> nat"
  assumes "finite A" and "a \<in> A"
  shows "f a \<le> sum f A"
  using assms by (metis member_le_sum zero_le)

subsection \<open>Words\<close>

text \<open>
  Rust's \<open>+\<close> and \<open>-\<close> on an unsigned integer wrap around in a release build;
  HOL's \<open>+\<close> and \<open>-\<close> on \<open>'w word\<close> do the same. Where the code relies on a
  guard or an invariant for the operation not to wrap, the two lemmas below turn the
  word operation into the operation on \<open>nat\<close>.
\<close>

lemma unat_add_no_wrap:
  fixes a b :: "'w::len word"
  assumes "unat a + unat b < 2 ^ LENGTH('w)"
  shows "unat (a + b) = unat a + unat b"
  using assms by (rule unat_add_lem [THEN iffD1])

lemma unat_sub_no_wrap:
  fixes a b :: "'w::len word"
  assumes "unat b \<le> unat a"
  shows "unat (a - b) = unat a - unat b"
  using assms by (simp add: unat_sub word_le_nat_alt)

lemma unat_succ_no_wrap:
  fixes a :: "'w::len word"
  assumes "a \<noteq> - 1"
  shows "unat (a + 1) = unat a + 1"
proof -
  from assms have "a < - 1"
    by (simp add: word_order.not_eq_extremum)
  then have "unat a < unat (- 1 :: 'w word)"
    by (simp add: word_less_nat_alt)
  also have "unat (- 1 :: 'w word) = 2 ^ LENGTH('w) - 1"
    by (simp add: unsigned_minus_1_eq_mask mask_eq_exp_minus_1)
  finally have "unat a + unat (1 :: 'w word) < 2 ^ LENGTH('w)"
    by simp
  then have "unat (a + 1) = unat a + unat (1 :: 'w word)"
    by (rule unat_add_no_wrap)
  then show ?thesis by simp
qed

end
