(* ===== verification/Token_Storage.thy ===== *)
theory Token_Storage
  imports Ledger_Prelude
begin

text \<open>
  The module's storage, as declared by \<open>decl_storage!\<close> in
  \<open>src/runtime/src/token.rs\<close>: the map \<open>Balances\<close> from \<open>(AssetId, AccountId)\<close>
  to a balance, the value \<open>NextAssetId\<close> and the map \<open>TotalSupply\<close> from an asset
  to its supply. The storage maps of this Substrate version are value-query maps: a key
  that was never written (or was taken) reads as the type's default, zero. A map is
  kept as a partial function whose domain is the set of stored keys, so that the
  difference between a key holding zero and an absent key stays visible; the four
  primitives the module calls (\<open>get\<close>, \<open>insert\<close>, \<open>take\<close>, \<open>mutate\<close>) are
  defined on it. The public getters \<open>balance\<close> and \<open>total_supply\<close> of the
  module's \<open>impl\<close> block read through them.
\<close>

type_synonym asset_id = "32 word"

lemma unat_asset_id_lt: "unat (aid :: asset_id) < 2 ^ 32"
  using unsigned_less [of aid] by simp

lemma unat_max_asset_id: "unat (- 1 :: asset_id) = 2 ^ 32 - 1"
  by (simp add: unsigned_minus_1_eq_mask mask_eq_exp_minus_1)

type_synonym ('k, 'v) storage_map = "'k \<rightharpoonup> 'v"

subsection \<open>Storage-map primitives\<close>

definition storage_get :: "('k, 'v::zero) storage_map \<Rightarrow> 'k \<Rightarrow> 'v" where
  "storage_get m k = (case m k of None \<Rightarrow> 0 | Some v \<Rightarrow> v)"

definition storage_insert :: "('k, 'v) storage_map \<Rightarrow> 'k \<Rightarrow> 'v \<Rightarrow> ('k, 'v) storage_map" where
  "storage_insert m k v = m(k \<mapsto> v)"

definition storage_take :: "('k, 'v::zero) storage_map \<Rightarrow> 'k \<Rightarrow> 'v \<times> ('k, 'v) storage_map" where
  "storage_take m k = (storage_get m k, m(k := None))"

definition storage_mutate ::
  "('k, 'v::zero) storage_map \<Rightarrow> 'k \<Rightarrow> ('v \<Rightarrow> 'v) \<Rightarrow> ('k, 'v) storage_map" where
  "storage_mutate m k f = storage_insert m k (f (storage_get m k))"

subsection \<open>The module's storage\<close>

record ('acc, 'bal) token_storage =
  Balances :: "(asset_id \<times> 'acc, 'bal) storage_map"
  NextAssetId :: asset_id
  TotalSupply :: "(asset_id, 'bal) storage_map"

definition balance :: "('acc, 'bal::zero, 'x) token_storage_scheme \<Rightarrow> asset_id \<Rightarrow> 'acc \<Rightarrow> 'bal" where
  "balance s aid who = storage_get (Balances s) (aid, who)"

definition total_supply :: "('acc, 'bal::zero, 'x) token_storage_scheme \<Rightarrow> asset_id \<Rightarrow> 'bal" where
  "total_supply s aid = storage_get (TotalSupply s) aid"

subsection \<open>Holders of an asset and the sum of their balances\<close>

text \<open>
  The accounts that have a stored entry for an asset, and the sum of their balances
  read as natural numbers: the right-hand side of the conservation invariant.
  Accounts with no entry hold zero and add nothing.
\<close>

definition holders :: "(asset_id \<times> 'acc, 'v) storage_map \<Rightarrow> asset_id \<Rightarrow> 'acc set" where
  "holders m aid = {c. (aid, c) \<in> dom m}"

definition holdings :: "('acc, 'w::len word, 'x) token_storage_scheme \<Rightarrow> asset_id \<Rightarrow> nat" where
  "holdings s aid = (\<Sum>c \<in> holders (Balances s) aid. unat (balance s aid c))"

text \<open>Each getter reads one storage item only.\<close>

lemma reads_frame [simp]:
  "holdings (s\<lparr>TotalSupply := t\<rparr>) = holdings s"
  "holdings (s\<lparr>NextAssetId := n\<rparr>) = holdings s"
  "balance (s\<lparr>TotalSupply := t\<rparr>) = balance s"
  "balance (s\<lparr>NextAssetId := n\<rparr>) = balance s"
  "total_supply (s\<lparr>Balances := m\<rparr>) = total_supply s"
  "total_supply (s\<lparr>NextAssetId := n\<rparr>) = total_supply s"
  by (simp_all add: holdings_def balance_def total_supply_def fun_eq_iff)

subsection \<open>Equations of the primitives\<close>

lemma storage_get_upd [storage_simps]:
  "storage_get (m(k \<mapsto> v)) k' = (if k' = k then v else storage_get m k')"
  by (simp add: storage_get_def)

lemma storage_get_delete [storage_simps]:
  "storage_get (m(k := None)) k' = (if k' = k then 0 else storage_get m k')"
  by (simp add: storage_get_def)

lemma storage_get_empty [storage_simps]: "storage_get Map.empty k = 0"
  by (simp add: storage_get_def)

lemma storage_get_absent: "k \<notin> dom m \<Longrightarrow> storage_get m k = 0"
  by (simp add: storage_get_def domIff)

lemma storage_get_Some: "m k = Some v \<Longrightarrow> storage_get m k = v"
  by (simp add: storage_get_def)

lemmas storage_prims [storage_simps] =
  storage_insert_def storage_take_def storage_mutate_def

text \<open>Insert then get is the round trip of a storage map; take reads and clears.\<close>

lemma storage_insert_get: "storage_get (storage_insert m k v) k = v"
  by (simp add: storage_simps)

lemma storage_take_get:
  "storage_take m k = (v, m') \<Longrightarrow> v = storage_get m k \<and> storage_get m' k = 0 \<and> k \<notin> dom m'"
  by (auto simp: storage_simps)

subsection \<open>Holders and holdings under one write\<close>

lemma holders_finite: "finite (dom m) \<Longrightarrow> finite (holders m aid)"
proof -
  assume "finite (dom m)"
  moreover have "holders m aid = Pair aid -` dom m"
    by (auto simp: holders_def)
  ultimately show ?thesis
    by (simp add: finite_vimageI inj_on_def)
qed

lemma holders_upd: "holders (m((aid, c) \<mapsto> v)) aid = insert c (holders m aid)"
  by (auto simp: holders_def)

lemma holders_delete: "holders (m((aid, c) := None)) aid = holders m aid - {c}"
  by (auto simp: holders_def)

lemma holders_other:
  "aid' \<noteq> aid \<Longrightarrow> holders (m((aid, c) := x)) aid' = holders m aid'"
  by (auto simp: holders_def)

lemma holdings_insert_absent:
  assumes "finite (dom (Balances s))"
  shows "holdings s aid =
    (\<Sum>c' \<in> insert c (holders (Balances s) aid). unat (balance s aid c'))"
proof -
  have "finite (holders (Balances s) aid)"
    using assms by (rule holders_finite)
  moreover have "c \<notin> holders (Balances s) aid \<Longrightarrow> unat (balance s aid c) = 0"
    by (simp add: holders_def balance_def storage_get_absent)
  ultimately show ?thesis
    unfolding holdings_def by (rule sum_insert_zero [symmetric])
qed

text \<open>
  Writing \<open>v\<close> at \<open>(aid, c)\<close> changes the holdings of \<open>aid\<close> by the difference between
  \<open>v\<close> and the old balance, and leaves every other asset alone. Removing the entry
  (\<open>take\<close>) is writing zero.
\<close>

lemma holdings_upd_same:
  assumes "finite (dom (Balances s))"
  shows "holdings (s\<lparr>Balances := (Balances s)((aid, c) \<mapsto> v)\<rparr>) aid + unat (balance s aid c)
         = holdings s aid + unat v"
proof -
  let ?A = "insert c (holders (Balances s) aid)"
  let ?f = "\<lambda>c'. unat (balance s aid c')"
  have fin: "finite ?A"
    using assms holders_finite by blast
  have "holdings (s\<lparr>Balances := (Balances s)((aid, c) \<mapsto> v)\<rparr>) aid = sum (?f(c := unat v)) ?A"
    by (auto simp: holdings_def holders_upd balance_def storage_simps intro!: sum.cong)
  moreover have "holdings s aid = sum ?f ?A"
    using assms by (rule holdings_insert_absent)
  ultimately show ?thesis
    using sum_fun_upd_add [OF fin, of c ?f "unat v"] by simp
qed

lemma holdings_delete_same:
  assumes "finite (dom (Balances s))"
  shows "holdings (s\<lparr>Balances := (Balances s)((aid, c) := None)\<rparr>) aid + unat (balance s aid c)
         = holdings s aid"
proof -
  let ?f = "\<lambda>c'. unat (balance s aid c')"
  have fin: "finite (holders (Balances s) aid)"
    using assms holders_finite by blast
  have eq: "holdings (s\<lparr>Balances := (Balances s)((aid, c) := None)\<rparr>) aid
            = sum ?f (holders (Balances s) aid - {c})"
    by (auto simp: holdings_def holders_delete balance_def storage_simps intro!: sum.cong)
  show ?thesis
  proof (cases "c \<in> holders (Balances s) aid")
    case True
    with fin eq show ?thesis by (simp add: holdings_def sum.remove)
  next
    case False
    then have "balance s aid c = 0"
      by (simp add: holders_def balance_def storage_get_absent)
    with False eq show ?thesis by (simp add: holdings_def)
  qed
qed

lemma holdings_other:
  "aid' \<noteq> aid \<Longrightarrow> holdings (s\<lparr>Balances := (Balances s)((aid, c) := x)\<rparr>) aid' = holdings s aid'"
  by (auto simp: holdings_def holders_other balance_def storage_get_def intro!: sum.cong)

text \<open>Two different accounts together hold no more than the holdings of the asset.\<close>

lemma holdings_two_le:
  assumes "finite (dom (Balances s))" and "a \<noteq> b"
  shows "unat (balance s aid a) + unat (balance s aid b) \<le> holdings s aid"
proof -
  let ?A = "insert a (insert b (holders (Balances s) aid))"
  let ?f = "\<lambda>c'. unat (balance s aid c')"
  have fin: "finite ?A"
    using assms holders_finite by blast
  have "holdings s aid = sum ?f (insert b (holders (Balances s) aid))"
    using assms(1) by (rule holdings_insert_absent)
  also have "\<dots> = sum ?f ?A"
    using fin by (intro sum_insert_zero [symmetric])
      (auto simp: holders_def balance_def storage_get_absent)
  finally show ?thesis
    using sum_two_le [OF fin, of a b ?f] assms(2) by simp
qed

lemma holdings_one_le:
  assumes "finite (dom (Balances s))"
  shows "unat (balance s aid a) \<le> holdings s aid"
proof -
  have "holdings s aid = (\<Sum>c' \<in> insert a (holders (Balances s) aid). unat (balance s aid c'))"
    using assms by (rule holdings_insert_absent)
  then show ?thesis
    using assms holders_finite by (metis finite_insert insertI1 sum_one_le)
qed

end
