(* ===== verification/Token_Events.thy ===== *)
theory Token_Events
  imports Token_Storage
begin

text \<open>
  The module's events (\<open>decl_event!\<close> in \<open>src/runtime/src/token.rs\<close>) and the part
  of the runtime state they are written to. \<open>Self::deposit_event\<close> hands the event to
  the system module, which appends it to the block's event list; the model keeps that
  list as the field \<open>Events\<close> of a record \<open>chain\<close> that extends the module's storage,
  so that every operation of the module is a function on \<open>chain\<close>.
\<close>

datatype ('acc, 'bal) event =
    Issued asset_id 'acc 'bal
  | Transferred asset_id 'acc 'acc 'bal
  | Destroyed asset_id 'acc 'bal

record ('acc, 'bal) chain = "('acc, 'bal) token_storage" +
  Events :: "('acc, 'bal) event list"

text \<open>
  The state before any call: no stored balance or supply, and \<open>NextAssetId\<close> at its
  default, zero (the storage items have no genesis configuration).
\<close>

definition genesis :: "('acc, 'bal) chain" where
  "genesis = \<lparr>Balances = Map.empty, NextAssetId = 0, TotalSupply = Map.empty, Events = []\<rparr>"

definition deposit_event :: "('acc, 'bal) chain \<Rightarrow> ('acc, 'bal) event \<Rightarrow> ('acc, 'bal) chain" where
  "deposit_event s e = s\<lparr>Events := Events s @ [e]\<rparr>"

lemma deposit_event_storage [simp]:
  "Balances (deposit_event s e) = Balances s"
  "NextAssetId (deposit_event s e) = NextAssetId s"
  "TotalSupply (deposit_event s e) = TotalSupply s"
  "Events (deposit_event s e) = Events s @ [e]"
  by (simp_all add: deposit_event_def)

lemma deposit_event_reads [simp]:
  "balance (deposit_event s e) = balance s"
  "total_supply (deposit_event s e) = total_supply s"
  "holdings (deposit_event s e) = holdings s"
  by (simp_all add: balance_def total_supply_def holdings_def fun_eq_iff)

end
