(* ===== verification/Runtime_System.thy ===== *)
theory Runtime_System
  imports Ledger_Prelude
begin

text \<open>
  The pieces of the Substrate system module that the dispatchable calls of
  \<open>src/runtime/src/token.rs\<close> use: the origin of a call, \<open>ensure_signed\<close>, which
  accepts only a signed origin, and the errors a call can return. In this Substrate
  version a dispatch error is a static string; each string the module can return is a
  constructor of \<open>dispatch_error\<close>, and \<open>error_message\<close> gives the string back:
  the three of the module's \<open>ensure!\<close> calls verbatim, the system's for a bad origin,
  and a stand-in for the lookup's, whose text belongs to the runtime's \<open>Lookup\<close>
  implementation.
  The account lookup \<open>T::Lookup::lookup\<close> is a parameter of the calls that use it: a
  function from the call's target source to an account, \<open>None\<close> when it fails.
\<close>

datatype 'acc origin = Root | Signed 'acc | Unsigned

datatype dispatch_error =
    BadOrigin
  | LookupError
  | ZeroAmount
  | InsufficientBalance
  | ZeroBalance

type_synonym ('src, 'acc) lookup = "'src \<Rightarrow> 'acc option"

definition ensure_signed :: "'acc origin \<Rightarrow> dispatch_error + 'acc" where
  "ensure_signed origin = (case origin of Signed who \<Rightarrow> Inr who | _ \<Rightarrow> Inl BadOrigin)"

fun error_message :: "dispatch_error \<Rightarrow> string" where
  "error_message BadOrigin = ''bad origin: expected to be a signed origin''"
| "error_message LookupError = ''invalid account lookup''"
| "error_message ZeroAmount = ''transfer amount should be non-zero''"
| "error_message InsufficientBalance =
     ''origin account balance must be greater than or equal to the transfer amount''"
| "error_message ZeroBalance = ''origin balance should be non-zero''"

lemma ensure_signed_simps [simp]:
  "ensure_signed (Signed who) = Inr who"
  "ensure_signed Root = Inl BadOrigin"
  "ensure_signed Unsigned = Inl BadOrigin"
  by (simp_all add: ensure_signed_def)

lemma ensure_signed_Inr: "ensure_signed origin = Inr who \<longleftrightarrow> origin = Signed who"
  by (cases origin) simp_all

lemma ensure_signed_Inl: "ensure_signed origin = Inl e \<Longrightarrow> e = BadOrigin"
  by (cases origin) simp_all

lemma error_message_inj: "error_message e = error_message e' \<Longrightarrow> e = e'"
  by (cases e; cases e') simp_all

end
