(* ===== verification/Token_Ops.thy ===== *)
theory Token_Ops
  imports Token_Events Runtime_System
begin

text \<open>
  The three dispatchable calls of \<open>decl_module!\<close> in \<open>src/runtime/src/token.rs\<close>:
  \<open>issue\<close>, \<open>transfer\<close> and \<open>destroy\<close>. Each is a function from the chain state,
  the call's origin and its arguments to the state after the call and its result, an
  error or \<open>()\<close>. Storage writes in this Substrate version are not undone when a call
  returns an error: the state after a failed call is the state after the writes made
  before the failing check. The statements of each body appear in the source's order;
  the balance type is \<open>'w word\<close>, whose \<open>+\<close> and \<open>-\<close> wrap around as the Rust
  operators do in a release build, and \<open>AssetId\<close> is a 32-bit word. The parameter
  \<open>total\<close> of \<open>issue\<close> is called \<open>tot\<close> here (\<open>total\<close> is a constant of HOL),
  and the local \<open>id\<close> is \<open>aid\<close>.
\<close>

type_synonym ('acc, 'bal) outcome = "('acc, 'bal) chain \<times> (dispatch_error + unit)"

definition issue ::
  "('acc, 'w::len word) chain \<Rightarrow> 'acc origin \<Rightarrow> 'w word \<Rightarrow> ('acc, 'w word) outcome" where
  "issue s origin tot =
     (case ensure_signed origin of
        Inl e \<Rightarrow> (s, Inl e)
      | Inr who \<Rightarrow>
          (let aid = NextAssetId s;
               s1 = s\<lparr>NextAssetId := NextAssetId s + 1\<rparr>;
               s2 = s1\<lparr>Balances := storage_insert (Balances s1) (aid, who) tot\<rparr>;
               s3 = s2\<lparr>TotalSupply := storage_insert (TotalSupply s2) aid tot\<rparr>
           in (deposit_event s3 (Issued aid who tot), Inr ())))"

definition transfer ::
  "('src, 'acc) lookup \<Rightarrow> ('acc, 'w::len word) chain \<Rightarrow> 'acc origin \<Rightarrow> asset_id \<Rightarrow> 'src \<Rightarrow>
   'w word \<Rightarrow> ('acc, 'w word) outcome" where
  "transfer lk s origin aid target amount =
     (case ensure_signed origin of
        Inl e \<Rightarrow> (s, Inl e)
      | Inr who \<Rightarrow>
          (let origin_account = (aid, who);
               origin_balance = storage_get (Balances s) origin_account
           in case lk target of
                None \<Rightarrow> (s, Inl LookupError)
              | Some tgt \<Rightarrow>
                  if amount = 0 then (s, Inl ZeroAmount)
                  else if \<not> origin_balance \<ge> amount then (s, Inl InsufficientBalance)
                  else
                    (let s1 = deposit_event s (Transferred aid who tgt amount);
                         s2 = s1\<lparr>Balances :=
                                storage_insert (Balances s1) origin_account (origin_balance - amount)\<rparr>;
                         s3 = s2\<lparr>Balances :=
                                storage_mutate (Balances s2) (aid, tgt) (\<lambda>b. b + amount)\<rparr>
                     in (s3, Inr ()))))"

definition destroy ::
  "('acc, 'w::len word) chain \<Rightarrow> 'acc origin \<Rightarrow> asset_id \<Rightarrow> ('acc, 'w word) outcome" where
  "destroy s origin aid =
     (case ensure_signed origin of
        Inl e \<Rightarrow> (s, Inl e)
      | Inr who \<Rightarrow>
          (case storage_take (Balances s) (aid, who) of
             (bal, balances') \<Rightarrow>
               (let s1 = s\<lparr>Balances := balances'\<rparr>
                in if bal = 0 then (s1, Inl ZeroBalance)
                   else
                     (let s2 = s1\<lparr>TotalSupply :=
                                 storage_mutate (TotalSupply s1) aid (\<lambda>t. t - bal)\<rparr>
                      in (deposit_event s2 (Destroyed aid who bal), Inr ())))))"

declare issue_def [op_defs] transfer_def [op_defs] destroy_def [op_defs]

subsection \<open>The calls unfolded on each branch\<close>

text \<open>
  One equation per branch of each call, with the storage primitives evaluated: the
  facts the functional and invariant proofs rewrite with.
\<close>

lemma calls_unsigned:
  assumes "\<forall>w. origin \<noteq> Signed w"
  shows "issue s origin tot = (s, Inl BadOrigin)"
    and "transfer lk s origin aid target amount = (s, Inl BadOrigin)"
    and "destroy s origin aid = (s, Inl BadOrigin)"
  using assms by (cases origin; simp add: op_defs)+

lemma issue_Signed:
  "issue s (Signed who) tot =
     (s\<lparr>NextAssetId := NextAssetId s + 1,
        Balances := (Balances s)((NextAssetId s, who) \<mapsto> tot),
        TotalSupply := (TotalSupply s)(NextAssetId s \<mapsto> tot),
        Events := Events s @ [Issued (NextAssetId s) who tot]\<rparr>, Inr ())"
  by (simp add: issue_def Let_def storage_simps deposit_event_def)

lemma transfer_ok_eq:
  assumes "lk target = Some tgt" and "amount \<noteq> 0" and "amount \<le> balance s aid who"
  shows "transfer lk s (Signed who) aid target amount =
     (let ob = balance s aid who;
          m1 = (Balances s)((aid, who) \<mapsto> ob - amount)
      in (s\<lparr>Balances := m1((aid, tgt) \<mapsto> storage_get m1 (aid, tgt) + amount),
            Events := Events s @ [Transferred aid who tgt amount]\<rparr>, Inr ()))"
  using assms by (simp add: transfer_def Let_def storage_simps deposit_event_def balance_def)

lemma destroy_Signed:
  "destroy s (Signed who) aid =
     (if balance s aid who = 0
      then (s\<lparr>Balances := (Balances s)((aid, who) := None)\<rparr>, Inl ZeroBalance)
      else (s\<lparr>Balances := (Balances s)((aid, who) := None),
              TotalSupply := (TotalSupply s)(aid \<mapsto> total_supply s aid - balance s aid who),
              Events := Events s @ [Destroyed aid who (balance s aid who)]\<rparr>, Inr ()))"
  by (simp add: destroy_def Let_def storage_simps deposit_event_def balance_def total_supply_def)


lemma transfer_Signed_result:
  "snd (transfer lk s (Signed who) aid target amount) =
     (case lk target of
        None \<Rightarrow> Inl LookupError
      | Some tgt \<Rightarrow>
          if amount = 0 then Inl ZeroAmount
          else if balance s aid who < amount then Inl InsufficientBalance
          else Inr ())"
  by (simp add: transfer_def Let_def balance_def not_le split: option.split)

lemma transfer_Inl_state: "transfer lk s origin aid target amount = (s', Inl e) \<Longrightarrow> s' = s"
  by (auto simp: transfer_def Let_def split: sum.splits option.splits if_splits)

lemma issue_NextAssetId: "NextAssetId (fst (issue s origin tot)) = (case origin of Signed _ \<Rightarrow> NextAssetId s + 1 | _ \<Rightarrow> NextAssetId s)"
  by (cases origin) (simp_all add: issue_Signed calls_unsigned)

lemma transfer_frame [simp]:
  "NextAssetId (fst (transfer lk s origin aid target amount)) = NextAssetId s"
  "TotalSupply (fst (transfer lk s origin aid target amount)) = TotalSupply s"
  by (auto simp: transfer_def Let_def storage_simps split: sum.split option.split)

lemma destroy_frame [simp]:
  "NextAssetId (fst (destroy s origin aid)) = NextAssetId s"
  by (cases origin) (simp_all add: destroy_Signed calls_unsigned)

text \<open>
  What a successful transfer found and wrote, as an elimination rule: the shared
  starting point of the functional, invariant and refinement proofs about it.
\<close>

lemma transfer_Inr:
  assumes "transfer lk s origin aid target amount = (s', Inr ())"
  obtains who tgt where "origin = Signed who" and "lk target = Some tgt"
    and "amount \<noteq> 0" and "amount \<le> balance s aid who"
    and "Balances s' = (Balances s)((aid, who) \<mapsto> balance s aid who - amount,
           (aid, tgt) \<mapsto> (if tgt = who then balance s aid who - amount else balance s aid tgt) + amount)"
    and "TotalSupply s' = TotalSupply s" and "NextAssetId s' = NextAssetId s"
    and "Events s' = Events s @ [Transferred aid who tgt amount]"
proof -
  obtain who where o: "origin = Signed who"
    using assms by (cases origin) (simp_all add: op_defs)
  obtain tgt where tgt: "lk target = Some tgt"
    using assms o transfer_Signed_result [of lk s who aid target amount]
    by (cases "lk target") auto
  have ok: "amount \<noteq> 0" "amount \<le> balance s aid who"
    using assms o transfer_Signed_result [of lk s who aid target amount] tgt
    by (auto split: if_splits)
  have "s' = fst (transfer lk s (Signed who) aid target amount)"
    using assms o by simp
  with tgt ok have "Balances s' = (Balances s)((aid, who) \<mapsto> balance s aid who - amount,
           (aid, tgt) \<mapsto> (if tgt = who then balance s aid who - amount else balance s aid tgt) + amount)"
    and "TotalSupply s' = TotalSupply s" and "NextAssetId s' = NextAssetId s"
    and "Events s' = Events s @ [Transferred aid who tgt amount]"
    by (simp_all add: transfer_ok_eq Let_def balance_def storage_simps)
  with o tgt ok show ?thesis
    using that by blast
qed

text \<open>
  Every transfer either is rejected and leaves the state as it was, or is accepted
  with the writes of \<open>transfer_Inr\<close>: the case rule the proofs about a transfer
  of any origin and result start from.
\<close>

lemma transfer_cases [case_names rejected accepted]:
  obtains (rejected) e where "transfer lk s origin aid target amount = (s, Inl e)"
  | (accepted) who tgt where "origin = Signed who" and "lk target = Some tgt"
    and "amount \<noteq> 0" and "amount \<le> balance s aid who"
    and "snd (transfer lk s origin aid target amount) = Inr ()"
    and "Balances (fst (transfer lk s origin aid target amount)) = (Balances s)((aid, who) \<mapsto> balance s aid who - amount,
           (aid, tgt) \<mapsto> (if tgt = who then balance s aid who - amount else balance s aid tgt) + amount)"
    and "TotalSupply (fst (transfer lk s origin aid target amount)) = TotalSupply s"
    and "NextAssetId (fst (transfer lk s origin aid target amount)) = NextAssetId s"
    and "Events (fst (transfer lk s origin aid target amount)) = Events s @ [Transferred aid who tgt amount]"
proof (cases "transfer lk s origin aid target amount")
  case (Pair s' r)
  show ?thesis
  proof (cases r)
    case (Inl e)
    with Pair have "transfer lk s origin aid target amount = (s, Inl e)"
      using transfer_Inl_state by fastforce
    then show ?thesis
      by (rule rejected)
  next
    case (Inr u)
    with Pair have ok: "transfer lk s origin aid target amount = (s', Inr ())"
      by simp
    from ok show ?thesis
    proof (rule transfer_Inr)
      fix who tgt
      assume "origin = Signed who" "lk target = Some tgt" "amount \<noteq> 0" "amount \<le> balance s aid who"
        "Balances s' = (Balances s)((aid, who) \<mapsto> balance s aid who - amount,
           (aid, tgt) \<mapsto> (if tgt = who then balance s aid who - amount else balance s aid tgt) + amount)"
        "TotalSupply s' = TotalSupply s" "NextAssetId s' = NextAssetId s"
        "Events s' = Events s @ [Transferred aid who tgt amount]"
      with ok show ?thesis
        by (intro accepted) simp_all
    qed
  qed
qed

lemma balances_upd_same:
  "balance s aid who \<noteq> 0 \<Longrightarrow> (Balances s)((aid, who) \<mapsto> balance s aid who) = Balances s"
  by (auto simp: fun_eq_iff balance_def storage_get_def split: option.splits)

subsection \<open>Functional behaviour of each call\<close>

text \<open>
  C7: a signed \<open>issue\<close> always succeeds; it allocates the asset id \<open>NextAssetId\<close>,
  advances \<open>NextAssetId\<close> by one (as a 32-bit word), gives the caller a balance of
  \<open>tot\<close> of the new asset, sets the asset's supply to \<open>tot\<close>, leaves every other
  balance and supply as it was and appends the event \<open>Issued\<close>.
\<close>

theorem issue_effect:
  assumes "issue s (Signed who) tot = (s', r)"
  shows "r = Inr () \<and> NextAssetId s' = NextAssetId s + 1
    \<and> (\<forall>aid c. balance s' aid c = (if (aid, c) = (NextAssetId s, who) then tot else balance s aid c))
    \<and> (\<forall>aid. total_supply s' aid = (if aid = NextAssetId s then tot else total_supply s aid))
    \<and> Events s' = Events s @ [Issued (NextAssetId s) who tot]"
  using assms by (auto simp: issue_Signed balance_def total_supply_def storage_simps)

text \<open>
  C3: a successful \<open>transfer\<close> from \<open>who\<close> found a target account \<open>tgt\<close>, a
  non-zero amount and enough balance; it takes \<open>amount\<close> from \<open>who\<close> and adds it to
  \<open>tgt\<close> (word arithmetic, as in the source), so that a transfer to oneself leaves the
  balance as it was; it changes no other balance, no supply and not
  \<open>NextAssetId\<close>, and appends the event \<open>Transferred\<close>.
\<close>

theorem transfer_effect:
  assumes "transfer lk s (Signed who) aid target amount = (s', Inr ())"
  shows "\<exists>tgt. lk target = Some tgt \<and> amount \<noteq> 0 \<and> amount \<le> balance s aid who
     \<and> balance s' aid who = (if tgt = who then balance s aid who else balance s aid who - amount)
     \<and> balance s' aid tgt = (if tgt = who then balance s aid who else balance s aid tgt + amount)
     \<and> (\<forall>aid' c. (aid', c) \<noteq> (aid, who) \<and> (aid', c) \<noteq> (aid, tgt) \<longrightarrow> balance s' aid' c = balance s aid' c)
     \<and> TotalSupply s' = TotalSupply s \<and> NextAssetId s' = NextAssetId s
     \<and> Events s' = Events s @ [Transferred aid who tgt amount]"
proof -
  from assms obtain who' tgt where "Signed who = Signed who'" and tgt: "lk target = Some tgt"
    and ok: "amount \<noteq> 0" "amount \<le> balance s aid who'"
    and B: "Balances s' = (Balances s)((aid, who') \<mapsto> balance s aid who' - amount,
           (aid, tgt) \<mapsto> (if tgt = who' then balance s aid who' - amount else balance s aid tgt) + amount)"
    and rest: "TotalSupply s' = TotalSupply s" "NextAssetId s' = NextAssetId s"
      "Events s' = Events s @ [Transferred aid who' tgt amount]"
    by (rule transfer_Inr)
  then have w: "who' = who" by simp
  show ?thesis
  proof (cases "tgt = who")
    case True
    have "balance s aid who \<noteq> 0"
      using ok w by auto
    with B w True have "Balances s' = Balances s"
      by (simp add: balances_upd_same)
    with True tgt ok w rest show ?thesis
      by (auto simp: balance_def)
  next
    case False
    with tgt ok w B rest show ?thesis
      by (auto simp: balance_def storage_simps)
  qed
qed

text \<open>
  C4: a failed \<open>transfer\<close> leaves the chain state exactly as it was (every check of
  the source precedes its first write), and the error names the first check that
  failed, in the source's order: the signed origin, the target lookup, the non-zero
  amount, the caller's balance.
\<close>

theorem transfer_error:
  assumes "transfer lk s origin aid target amount = (s', Inl e)"
  shows "s' = s
    \<and> (e = BadOrigin \<longleftrightarrow> (\<forall>w. origin \<noteq> Signed w))
    \<and> (e = LookupError \<longleftrightarrow> (\<exists>w. origin = Signed w) \<and> lk target = None)
    \<and> (e = ZeroAmount \<longleftrightarrow> (\<exists>w. origin = Signed w) \<and> lk target \<noteq> None \<and> amount = 0)
    \<and> (e = InsufficientBalance \<longleftrightarrow>
         (\<exists>w. origin = Signed w \<and> lk target \<noteq> None \<and> amount \<noteq> 0 \<and> balance s aid w < amount))"
proof (cases origin)
  case (Signed w)
  have "snd (transfer lk s origin aid target amount) = Inl e"
    using assms by simp
  with Signed have "Inl e = (case lk target of None \<Rightarrow> Inl LookupError
          | Some tgt \<Rightarrow> if amount = 0 then Inl ZeroAmount
                       else if balance s aid w < amount then Inl InsufficientBalance else Inr ())"
    using transfer_Signed_result [of lk s w aid target amount] by simp
  with Signed assms transfer_Inl_state show ?thesis
    by (auto split: option.splits if_splits)
qed (use assms in \<open>auto simp: op_defs\<close>)

text \<open>
  C5: a successful \<open>destroy\<close> found a non-zero balance of the caller; it clears that
  balance, lowers the asset's supply by it (word arithmetic), changes no other balance
  or supply and appends the event \<open>Destroyed\<close> with the amount destroyed.
\<close>

theorem destroy_effect:
  assumes "destroy s (Signed who) aid = (s', Inr ())"
  shows "balance s aid who \<noteq> 0 \<and> balance s' aid who = 0
    \<and> total_supply s' aid = total_supply s aid - balance s aid who
    \<and> (\<forall>aid' c. (aid', c) \<noteq> (aid, who) \<longrightarrow> balance s' aid' c = balance s aid' c)
    \<and> (\<forall>aid'. aid' \<noteq> aid \<longrightarrow> total_supply s' aid' = total_supply s aid')
    \<and> NextAssetId s' = NextAssetId s
    \<and> Events s' = Events s @ [Destroyed aid who (balance s aid who)]"
  using assms
  by (auto simp: destroy_Signed balance_def total_supply_def storage_simps split: if_splits)

text \<open>
  C6: a failed \<open>destroy\<close> changes nothing a caller can observe: every balance, every
  supply, \<open>NextAssetId\<close> and the events are as before. It does change the storage:
  when the caller's balance is zero, the source's \<open>take\<close> has already removed the
  caller's entry before \<open>ensure!\<close> rejects the call, and that removal is kept.
\<close>

theorem destroy_error:
  assumes "destroy s origin aid = (s', Inl e)"
  shows "balance s' = balance s \<and> total_supply s' = total_supply s
    \<and> NextAssetId s' = NextAssetId s \<and> Events s' = Events s
    \<and> (e = BadOrigin \<and> s' = s
       \<or> (\<exists>who. origin = Signed who \<and> e = ZeroBalance \<and> balance s aid who = 0
             \<and> Balances s' = (Balances s)((aid, who) := None)))"
proof (cases origin)
  case (Signed who)
  with assms have z: "balance s aid who = 0"
    and s': "s' = s\<lparr>Balances := (Balances s)((aid, who) := None)\<rparr>" and e: "e = ZeroBalance"
    by (auto simp: destroy_Signed split: if_splits)
  from z s' have "balance s' = balance s"
    by (auto simp: fun_eq_iff balance_def storage_simps)
  moreover from s' have "total_supply s' = total_supply s"
    by (simp add: fun_eq_iff total_supply_def)
  ultimately show ?thesis
    using Signed z s' e by simp
qed (use assms in \<open>auto simp: op_defs\<close>)

end
