(* ===== verification/Token_Invariant.thy ===== *)
theory Token_Invariant
  imports Token_Ops
begin

text \<open>
  The ledger invariant of the specification (I1, I2 and I4) on the model: the stored
  balances are finitely many, the supply of every asset, read as a natural number,
  is the sum of its holders' balances (conservation; since the supply is a word, this
  also bounds every balance by the word's range), and no asset at or above
  \<open>NextAssetId\<close> has a non-zero balance. Each call keeps it: \<open>transfer\<close> and
  \<open>destroy\<close> always, \<open>issue\<close> as long as \<open>NextAssetId\<close> is not the largest 32-bit
  value. Under the invariant the unchecked \<open>+\<close> and \<open>-\<close> of the source never wrap.
\<close>

definition conserved :: "('acc, 'w::len word, 'x) token_storage_scheme \<Rightarrow> bool" where
  "conserved s \<longleftrightarrow> (\<forall>aid. unat (total_supply s aid) = holdings s aid)"

definition unissued_empty :: "('acc, 'w::len word, 'x) token_storage_scheme \<Rightarrow> bool" where
  "unissued_empty s \<longleftrightarrow> (\<forall>aid c. NextAssetId s \<le> aid \<longrightarrow> balance s aid c = 0)"

definition ledger_inv :: "('acc, 'w::len word, 'x) token_storage_scheme \<Rightarrow> bool" where
  "ledger_inv s \<longleftrightarrow> finite (dom (Balances s)) \<and> conserved s \<and> unissued_empty s"

subsection \<open>Facts on holdings the preservation proofs share\<close>

lemma holdings_cong: "Balances s' = Balances s \<Longrightarrow> holdings s' aid = holdings s aid"
  by (simp add: holdings_def balance_def)

lemma balance_cong: "Balances s' = Balances s \<Longrightarrow> balance s' = balance s"
  by (intro ext) (simp add: balance_def)

lemma ledger_inv_cong:
  assumes "Balances s' = Balances s" and "total_supply s' = total_supply s"
    and "NextAssetId s' = NextAssetId s"
  shows "ledger_inv s' = ledger_inv s"
proof -
  have "balance s' = balance s" and "\<And>aid. holdings s' aid = holdings s aid"
    using assms(1) by (rule balance_cong, rule holdings_cong)
  then show ?thesis
    using assms by (simp add: ledger_inv_def conserved_def unissued_empty_def)
qed

lemma total_supply_cong: "TotalSupply s' = TotalSupply s \<Longrightarrow> total_supply s' = total_supply s"
  by (intro ext) (simp add: total_supply_def)

lemma holdings_zero: "(\<forall>c. balance s aid c = 0) \<Longrightarrow> holdings s aid = 0"
  by (simp add: holdings_def)

lemma holders_empty [simp]: "holders Map.empty aid = {}"
  by (simp add: holders_def)

lemmas holders_eval [simp] = holders_upd holders_other

lemma holdings_lt: "conserved s \<Longrightarrow> holdings s aid < 2 ^ LENGTH('w)"
  for s :: "('acc, 'w::len word, 'x) token_storage_scheme"
  by (metis conserved_def unsigned_less)

text \<open>
  Under the invariant, the balances of two different accounts in one asset add up to
  less than the word's range: both are part of the asset's supply.
\<close>

lemma inv_pair_no_wrap:
  fixes s :: "('acc, 'w::len word, 'x) token_storage_scheme"
  assumes "ledger_inv s" and "a \<noteq> b"
  shows "unat (balance s aid a) + unat (balance s aid b) < 2 ^ LENGTH('w)"
proof -
  have "finite (dom (Balances s))" and "conserved s"
    using assms(1) by (simp_all add: ledger_inv_def)
  then show ?thesis
    using holdings_two_le [OF _ assms(2), of s aid] holdings_lt [of s aid]
    by (meson le_less_trans)
qed

text \<open>
  Moving \<open>a\<close> from \<open>who\<close> to a different account \<open>tgt\<close> keeps the holdings, as long
  as the two balances together stay within the word's range: then neither the
  subtraction nor the addition wraps.
\<close>

lemma holdings_move:
  fixes s :: "('acc, 'w::len word, 'x) token_storage_scheme"
  assumes fin: "finite (dom (Balances s))" and ne: "who \<noteq> tgt"
    and le: "a \<le> balance s aid who"
    and nw: "unat (balance s aid tgt) + unat (balance s aid who) < 2 ^ LENGTH('w)"
  shows "holdings (s\<lparr>Balances := (Balances s)((aid, who) \<mapsto> balance s aid who - a,
                                          (aid, tgt) \<mapsto> balance s aid tgt + a)\<rparr>) aid
         = holdings s aid"
proof -
  let ?ob = "balance s aid who" and ?tb = "balance s aid tgt"
  let ?s1 = "s\<lparr>Balances := (Balances s)((aid, who) \<mapsto> ?ob - a)\<rparr>"
  have sub: "unat (?ob - a) = unat ?ob - unat a" and ale: "unat a \<le> unat ?ob"
    using le by (simp_all add: unat_sub_no_wrap word_le_nat_alt)
  have add: "unat (?tb + a) = unat ?tb + unat a"
    using nw ale by (intro unat_add_no_wrap) simp
  have h1: "holdings ?s1 aid + unat ?ob = holdings s aid + unat (?ob - a)"
    using fin by (rule holdings_upd_same)
  have t1: "balance ?s1 aid tgt = ?tb"
    using ne by (simp add: balance_def storage_simps)
  have "holdings (?s1\<lparr>Balances := (Balances ?s1)((aid, tgt) \<mapsto> ?tb + a)\<rparr>) aid + unat (balance ?s1 aid tgt)
        = holdings ?s1 aid + unat (?tb + a)"
    using fin by (intro holdings_upd_same) simp
  with h1 t1 sub add ale show ?thesis
    by simp
qed

lemma unissued_write:
  assumes "unissued_empty s" and "\<not> NextAssetId s \<le> aid"
  shows "unissued_empty (s\<lparr>Balances := (Balances s)((aid, c) := x)\<rparr>)"
  using assms by (auto simp: unissued_empty_def balance_def storage_get_def)


text \<open>
  The invariant survives moving a non-zero amount, at most the balance of \<open>who\<close>,
  from \<open>who\<close> to another account \<open>tgt\<close>: conservation bounds the two balances
  together by the supply, so neither word operation wraps.
\<close>

lemma ledger_inv_move:
  fixes s :: "('acc, 'w::len word, 'x) token_storage_scheme"
  assumes inv: "ledger_inv s" and ne: "who \<noteq> tgt" and nz: "a \<noteq> 0"
    and le: "a \<le> balance s aid who"
  shows "ledger_inv (s\<lparr>Balances := (Balances s)((aid, who) \<mapsto> balance s aid who - a,
                                               (aid, tgt) \<mapsto> balance s aid tgt + a)\<rparr>)"
    (is "ledger_inv ?s2")
proof -
  let ?ob = "balance s aid who" and ?tb = "balance s aid tgt"
  let ?s1 = "s\<lparr>Balances := (Balances s)((aid, who) \<mapsto> ?ob - a)\<rparr>"
  have fin: "finite (dom (Balances s))" and cons: "conserved s" and un: "unissued_empty s"
    using inv by (simp_all add: ledger_inv_def)
  have issued: "\<not> NextAssetId s \<le> aid"
    using un nz le by (auto simp: unissued_empty_def)
  have nw: "unat ?tb + unat ?ob < 2 ^ LENGTH('w)"
    using inv ne [symmetric] by (rule inv_pair_no_wrap)
  have s2: "?s2 = ?s1\<lparr>Balances := (Balances ?s1)((aid, tgt) \<mapsto> ?tb + a)\<rparr>"
    by simp
  have same: "holdings ?s2 aid = holdings s aid"
    using holdings_move [OF fin ne le nw] by simp
  have other: "holdings ?s2 aid' = holdings s aid'" if "aid' \<noteq> aid" for aid'
    using that s2 holdings_other [of aid' aid ?s1 tgt] holdings_other [of aid' aid s who]
    by simp
  have "conserved ?s2"
    unfolding conserved_def
  proof
    fix aid'
    show "unat (total_supply ?s2 aid') = holdings ?s2 aid'"
      using cons same other by (cases "aid' = aid") (simp_all add: conserved_def total_supply_def)
  qed
  moreover have "unissued_empty ?s2"
  proof -
    have u1: "unissued_empty ?s1"
      using un issued by (rule unissued_write)
    show ?thesis
      using unissued_write [OF u1, of aid tgt "Some (?tb + a)"] issued by simp
  qed
  ultimately show ?thesis
    using fin by (simp add: ledger_inv_def)
qed

text \<open>
  The invariant survives removing one balance entry and lowering the asset's supply
  by the balance removed (\<open>destroy\<close>'s writes; with a zero balance, its error path):
  the balance is part of the supply, so the subtraction does not wrap.
\<close>

lemma ledger_inv_take:
  fixes s :: "('acc, 'w::len word, 'x) token_storage_scheme"
  assumes inv: "ledger_inv s"
  shows "ledger_inv (s\<lparr>Balances := (Balances s)((aid, who) := None),
                       TotalSupply := (TotalSupply s)(aid \<mapsto> total_supply s aid - balance s aid who)\<rparr>)"
    (is "ledger_inv ?s'")
proof -
  let ?b = "balance s aid who"
  have fin: "finite (dom (Balances s))" and cons: "conserved s" and un: "unissued_empty s"
    using inv by (simp_all add: ledger_inv_def)
  have "holdings ?s' aid + unat ?b = holdings s aid"
    using holdings_delete_same [OF fin, of aid who] by simp
  moreover have "unat ?b \<le> unat (total_supply s aid)"
    using holdings_one_le [OF fin] cons by (simp add: conserved_def)
  moreover have "unat (total_supply ?s' aid) = unat (total_supply s aid) - unat ?b"
    using calculation(2) by (simp add: total_supply_def storage_simps unat_sub_no_wrap)
  ultimately have same: "unat (total_supply ?s' aid) = holdings ?s' aid"
    using cons by (simp add: conserved_def)
  have other: "unat (total_supply ?s' aid') = holdings ?s' aid'" if "aid' \<noteq> aid" for aid'
    using that cons holdings_other [of aid' aid s who None]
    by (simp add: conserved_def total_supply_def storage_simps)
  have "conserved ?s'"
    unfolding conserved_def using same other by metis
  moreover have "unissued_empty ?s'"
    using un by (auto simp: unissued_empty_def balance_def storage_simps)
  ultimately show ?thesis
    using fin by (simp add: ledger_inv_def)
qed

text \<open>
  The invariant survives \<open>issue\<close>'s writes at the fresh id \<open>NextAssetId\<close>, as long
  as advancing \<open>NextAssetId\<close> does not wrap: no account holds any of the fresh asset,
  so its supply becomes the one balance written.
\<close>

text \<open>An asset at or above \<open>NextAssetId\<close> has no balance and no supply.\<close>

lemma unissued_zero:
  fixes s :: "('acc, 'w::len word, 'x) token_storage_scheme"
  assumes inv: "ledger_inv s" and le: "NextAssetId s \<le> aid"
  shows "balance s aid c = 0 \<and> total_supply s aid = 0"
proof -
  have b: "\<forall>c. balance s aid c = 0"
    using inv le by (simp add: ledger_inv_def unissued_empty_def)
  then have "unat (total_supply s aid) = 0"
    using inv holdings_zero [OF b] by (simp add: ledger_inv_def conserved_def)
  with b show ?thesis
    by (simp add: unat_eq_zero)
qed

lemma ledger_inv_fresh:
  fixes s :: "('acc, 'w::len word, 'x) token_storage_scheme"
  assumes inv: "ledger_inv s" and nw: "NextAssetId s \<noteq> - 1"
  shows "ledger_inv (s\<lparr>NextAssetId := NextAssetId s + 1,
                       Balances := (Balances s)((NextAssetId s, who) \<mapsto> tot),
                       TotalSupply := (TotalSupply s)(NextAssetId s \<mapsto> tot)\<rparr>)"
    (is "ledger_inv ?s'")
proof -
  let ?n = "NextAssetId s"
  have fin: "finite (dom (Balances s))" and cons: "conserved s" and un: "unissued_empty s"
    using inv by (simp_all add: ledger_inv_def)
  have zero: "balance s ?n c = 0" for c
    using un by (simp add: unissued_empty_def)
  have h0: "holdings s ?n = 0"
    using zero by (simp add: holdings_zero)
  have hc: "holdings ?s' aid = holdings (s\<lparr>Balances := (Balances s)((?n, who) \<mapsto> tot)\<rparr>) aid" for aid
    by (rule holdings_cong) simp
  have "holdings ?s' ?n + unat (balance s ?n who) = holdings s ?n + unat tot"
    using holdings_upd_same [OF fin, of ?n who tot] hc by simp
  then have same: "unat (total_supply ?s' ?n) = holdings ?s' ?n"
    using zero h0 by (simp add: total_supply_def storage_simps)
  have other: "unat (total_supply ?s' aid) = holdings ?s' aid" if "aid \<noteq> ?n" for aid
    using that cons holdings_other [of aid ?n s who "Some tot"] hc [of aid]
    by (simp add: conserved_def total_supply_def storage_simps)
  have "conserved ?s'"
    unfolding conserved_def using same other by metis
  moreover have "unissued_empty ?s'"
    unfolding unissued_empty_def
  proof (intro allI impI)
    fix aid c
    assume "NextAssetId ?s' \<le> aid"
    then have "unat ?n + 1 \<le> unat aid"
      using nw by (simp add: word_le_nat_alt unat_succ_no_wrap)
    then have "aid \<noteq> ?n" and "?n \<le> aid"
      by (auto simp: word_le_nat_alt)
    then show "balance ?s' aid c = 0"
      using un by (simp add: unissued_empty_def balance_def storage_simps)
  qed
  ultimately show ?thesis
    using fin by (simp add: ledger_inv_def)
qed

subsection \<open>Each call keeps the invariant\<close>

text \<open>
  Every \<open>transfer\<close>, successful or not, keeps the ledger invariant: in particular the
  supply of every asset stays the sum of its holders' balances.
\<close>

lemma transfer_inv:
  fixes s :: "('acc, 'w::len word) chain"
  assumes inv: "ledger_inv s"
  shows "ledger_inv (fst (transfer lk s origin aid target amount))"
proof (cases rule: transfer_cases [of lk s origin aid target amount])
  case (rejected e)
  with inv show ?thesis
    by simp
next
  case (accepted who tgt)
  let ?s' = "fst (transfer lk s origin aid target amount)"
  from accepted have nz: "amount \<noteq> 0" and le: "amount \<le> balance s aid who"
    and B: "Balances ?s' = (Balances s)((aid, who) \<mapsto> balance s aid who - amount,
           (aid, tgt) \<mapsto> (if tgt = who then balance s aid who - amount else balance s aid tgt) + amount)"
    and T: "TotalSupply ?s' = TotalSupply s" and N: "NextAssetId ?s' = NextAssetId s"
    by simp_all
  show ?thesis
  proof (cases "tgt = who")
    case True
    have "balance s aid who \<noteq> 0"
      using nz le by auto
    with B True have "Balances ?s' = Balances s"
      by (simp add: balances_upd_same)
    with T N inv show ?thesis
      using ledger_inv_cong total_supply_cong by fastforce
  next
    case False
    let ?m = "s\<lparr>Balances := (Balances s)((aid, who) \<mapsto> balance s aid who - amount,
                                       (aid, tgt) \<mapsto> balance s aid tgt + amount)\<rparr>"
    have "ledger_inv ?m"
      using inv False [symmetric] nz le by (rule ledger_inv_move)
    moreover have "ledger_inv ?s' = ledger_inv ?m"
      using B T N False by (intro ledger_inv_cong total_supply_cong) simp_all
    ultimately show ?thesis
      by simp
  qed
qed


text \<open>
  Every \<open>destroy\<close>, successful or not, keeps the ledger invariant; on its error path
  the entry it has taken held zero, so conservation is untouched.
\<close>

lemma destroy_inv:
  fixes s :: "('acc, 'w::len word) chain"
  assumes inv: "ledger_inv s"
  shows "ledger_inv (fst (destroy s origin aid))"
proof (cases origin)
  case (Signed who)
  let ?t = "s\<lparr>Balances := (Balances s)((aid, who) := None),
              TotalSupply := (TotalSupply s)(aid \<mapsto> total_supply s aid - balance s aid who)\<rparr>"
  have "ledger_inv ?t"
    using inv by (rule ledger_inv_take)
  moreover have "ledger_inv (fst (destroy s origin aid)) = ledger_inv ?t"
    using Signed
    by (intro ledger_inv_cong) (auto simp: destroy_Signed total_supply_def storage_simps fun_eq_iff)
  ultimately show ?thesis
    by simp
qed (use inv in \<open>simp_all add: op_defs\<close>)

text \<open>
  An \<open>issue\<close> keeps the ledger invariant as long as \<open>NextAssetId\<close> is not the
  largest 32-bit value, so that the id it allocates is fresh and the next one is larger.
\<close>

lemma issue_inv:
  fixes s :: "('acc, 'w::len word) chain"
  assumes inv: "ledger_inv s" and nw: "NextAssetId s \<noteq> - 1"
  shows "ledger_inv (fst (issue s origin tot))"
proof (cases origin)
  case (Signed who)
  let ?t = "s\<lparr>NextAssetId := NextAssetId s + 1,
              Balances := (Balances s)((NextAssetId s, who) \<mapsto> tot),
              TotalSupply := (TotalSupply s)(NextAssetId s \<mapsto> tot)\<rparr>"
  have "ledger_inv ?t"
    using inv nw by (rule ledger_inv_fresh)
  moreover have "ledger_inv (fst (issue s origin tot)) = ledger_inv ?t"
    using Signed by (intro ledger_inv_cong total_supply_cong) (simp_all add: issue_Signed)
  ultimately show ?thesis
    by simp
qed (use inv in \<open>simp_all add: op_defs\<close>)

subsection \<open>The unchecked arithmetic does not wrap\<close>

text \<open>
  C8: under the invariant, a successful transfer between two different accounts is
  exact on natural numbers: the caller's balance drops by the amount and the target's
  grows by it, so the unchecked \<open>*balance += amount\<close> of the source never wraps.
\<close>

theorem transfer_exact_nat:
  fixes s :: "('acc, 'w::len word) chain"
  assumes inv: "ledger_inv s"
    and ok: "transfer lk s (Signed who) aid target amount = (s', Inr ())"
    and tgt: "lk target = Some tgt" and ne: "tgt \<noteq> who"
  shows "unat amount \<le> unat (balance s aid who)
    \<and> unat (balance s' aid who) = unat (balance s aid who) - unat amount
    \<and> unat (balance s' aid tgt) = unat (balance s aid tgt) + unat amount"
proof -
  from ok obtain who' tgt' where "Signed who = Signed who'" and "lk target = Some tgt'"
    and le: "amount \<le> balance s aid who'"
    and B: "Balances s' = (Balances s)((aid, who') \<mapsto> balance s aid who' - amount,
           (aid, tgt') \<mapsto> (if tgt' = who' then balance s aid who' - amount else balance s aid tgt') + amount)"
    by (rule transfer_Inr)
  with tgt have w: "who' = who" and t: "tgt' = tgt"
    by simp_all
  have nw: "unat (balance s aid tgt) + unat (balance s aid who) < 2 ^ LENGTH('w)"
    using inv ne by (rule inv_pair_no_wrap)
  have ale: "unat amount \<le> unat (balance s aid who)"
    using le w by (simp add: word_le_nat_alt)
  have "balance s' aid who = balance s aid who - amount"
    and "balance s' aid tgt = balance s aid tgt + amount"
    using B w t ne by (simp_all add: balance_def storage_simps)
  with ale nw show ?thesis
    by (simp add: unat_sub_no_wrap unat_add_no_wrap)
qed

text \<open>
  C9: under the invariant, the balance a successful \<open>destroy\<close> removes is at most
  the asset's supply, so the unchecked \<open>*total_supply -= balance\<close> is exact on
  natural numbers and never wraps.
\<close>

theorem destroy_exact_nat:
  fixes s :: "('acc, 'w::len word) chain"
  assumes inv: "ledger_inv s" and ok: "destroy s (Signed who) aid = (s', Inr ())"
  shows "unat (balance s aid who) \<le> unat (total_supply s aid)
    \<and> unat (total_supply s' aid) = unat (total_supply s aid) - unat (balance s aid who)"
proof -
  have fin: "finite (dom (Balances s))" and cons: "conserved s"
    using inv by (simp_all add: ledger_inv_def)
  have le: "unat (balance s aid who) \<le> unat (total_supply s aid)"
    using holdings_one_le [OF fin] cons by (simp add: conserved_def)
  have "total_supply s' aid = total_supply s aid - balance s aid who"
    using ok by (auto simp: destroy_Signed total_supply_def storage_simps split: if_splits)
  with le show ?thesis
    by (simp add: unat_sub_no_wrap)
qed

end
