(* ===== verification/Token_Dispatch.thy ===== *)
theory Token_Dispatch
  imports Token_Invariant
begin

text \<open>
  The module as a state machine. \<open>decl_module!\<close> generates an enum \<open>Call\<close> with one
  variant per dispatchable function and a \<open>dispatch\<close> that routes a call with its
  origin to the function; the model has the datatype \<open>call\<close> and the function
  \<open>dispatch\<close>. The executive applies the extrinsics of a block one after the other,
  and a failing extrinsic does not stop the block: \<open>run\<close> folds \<open>dispatch\<close> over a
  list of calls, keeping each call's state whatever its result. The reachable states
  are an inductive relation indexed by the number of \<open>issue\<close> calls made so far; the
  ledger invariant holds in every state reached with fewer than \<open>2 ^ 32\<close> of them,
  and one more issue than the 32-bit id space holds is enough to break conservation.
\<close>

datatype ('src, 'bal) call = Issue 'bal | Transfer asset_id 'src 'bal | Destroy asset_id

fun dispatch ::
  "('src, 'acc) lookup \<Rightarrow> ('acc, 'w::len word) chain \<Rightarrow> 'acc origin \<Rightarrow> ('src, 'w word) call \<Rightarrow>
   ('acc, 'w word) outcome" where
  "dispatch lk s origin (Issue tot) = issue s origin tot"
| "dispatch lk s origin (Transfer aid target amount) = transfer lk s origin aid target amount"
| "dispatch lk s origin (Destroy aid) = destroy s origin aid"

fun run ::
  "('src, 'acc) lookup \<Rightarrow> ('acc, 'w::len word) chain \<Rightarrow> ('acc origin \<times> ('src, 'w word) call) list \<Rightarrow>
   ('acc, 'w word) chain" where
  "run lk s [] = s"
| "run lk s ((origin, c) # cs) = run lk (fst (dispatch lk s origin c)) cs"

fun run_results ::
  "('src, 'acc) lookup \<Rightarrow> ('acc, 'w::len word) chain \<Rightarrow> ('acc origin \<times> ('src, 'w word) call) list \<Rightarrow>
   (dispatch_error + unit) list" where
  "run_results lk s [] = []"
| "run_results lk s ((origin, c) # cs) =
     snd (dispatch lk s origin c) # run_results lk (fst (dispatch lk s origin c)) cs"

fun is_issue :: "('src, 'bal) call \<Rightarrow> bool" where
  "is_issue (Issue _) = True"
| "is_issue _ = False"

definition issue_count :: "('o \<times> ('src, 'bal) call) list \<Rightarrow> nat" where
  "issue_count cs = length (filter (is_issue \<circ> snd) cs)"

fun call_asset :: "('acc, 'bal, 'x) token_storage_scheme \<Rightarrow> ('src, 'bal) call \<Rightarrow> asset_id" where
  "call_asset s (Issue _) = NextAssetId s"
| "call_asset s (Transfer aid _ _) = aid"
| "call_asset s (Destroy aid) = aid"

fun issued_ids :: "('acc, 'bal) event list \<Rightarrow> asset_id list" where
  "issued_ids [] = []"
| "issued_ids (Issued aid _ _ # es) = aid # issued_ids es"
| "issued_ids (Transferred _ _ _ _ # es) = issued_ids es"
| "issued_ids (Destroyed _ _ _ # es) = issued_ids es"

inductive reachable :: "('src, 'acc) lookup \<Rightarrow> nat \<Rightarrow> ('acc, 'w::len word) chain \<Rightarrow> bool"
  for lk :: "('src, 'acc) lookup" where
  genesis: "reachable lk 0 genesis"
| issue_step: "reachable lk n s \<Longrightarrow> reachable lk (Suc n) (fst (dispatch lk s origin (Issue tot)))"
| other_step: "reachable lk n s \<Longrightarrow> \<not> is_issue c \<Longrightarrow> reachable lk n (fst (dispatch lk s origin c))"

subsection \<open>One step and the genesis state\<close>

lemma genesis_inv: "ledger_inv genesis"
  by (simp add: ledger_inv_def conserved_def unissued_empty_def genesis_def holdings_def
      balance_def total_supply_def storage_simps)

lemma dispatch_inv:
  fixes s :: "('acc, 'w::len word) chain"
  assumes "ledger_inv s" and "is_issue c \<Longrightarrow> NextAssetId s \<noteq> - 1"
  shows "ledger_inv (fst (dispatch lk s origin c))"
  using assms by (cases c) (simp_all add: issue_inv transfer_inv destroy_inv)

lemma dispatch_NextAssetId:
  "\<not> is_issue c \<Longrightarrow> NextAssetId (fst (dispatch lk s origin c)) = NextAssetId s"
  by (cases c) simp_all

lemma issue_NextAssetId_unat:
  assumes "unat (NextAssetId s) < n" and "n < 2 ^ 32"
  shows "unat (NextAssetId (fst (issue s origin tot))) \<le> n"
proof -
  have "NextAssetId s \<noteq> - 1"
    using assms unat_max_asset_id by auto
  then show ?thesis
    using assms by (cases origin) (simp_all add: issue_Signed calls_unsigned unat_succ_no_wrap)
qed

subsection \<open>The invariant in every reachable state\<close>

lemma reachable_inv_next:
  fixes s :: "('acc, 'w::len word) chain"
  assumes "reachable lk n s" and "n < 2 ^ 32"
  shows "ledger_inv s \<and> unat (NextAssetId s) \<le> n"
  using assms
proof (induction rule: reachable.induct)
  case genesis
  have "unat (NextAssetId genesis) = 0"
    by (simp add: genesis_def)
  with genesis_inv show ?case by simp
next
  case (issue_step n s origin tot)
  then have inv: "ledger_inv s" and le: "unat (NextAssetId s) \<le> n"
    by simp_all
  with issue_step.prems have "unat (NextAssetId s) < Suc n" and "NextAssetId s \<noteq> - 1"
    using unat_max_asset_id by auto
  with inv issue_step.prems show ?case
    by (simp add: issue_inv issue_NextAssetId_unat)
next
  case (other_step n s c origin)
  then have "ledger_inv (fst (dispatch lk s origin c))"
    by (intro dispatch_inv) simp_all
  with other_step show ?case
    by (simp add: dispatch_NextAssetId)
qed


subsection \<open>Runs of calls are reachable\<close>

lemma issue_count_simps [simp]:
  "issue_count [] = 0"
  "issue_count ((origin, c) # cs) = (if is_issue c then Suc (issue_count cs) else issue_count cs)"
  "issue_count (replicate k (origin, Issue tot)) = k"
  by (simp_all add: issue_count_def)

lemma reachable_run:
  assumes "reachable lk n s"
  shows "reachable lk (n + issue_count cs) (run lk s cs)"
  using assms
proof (induction cs arbitrary: n s)
  case Nil
  then show ?case by simp
next
  case (Cons x cs)
  obtain origin c where x: "x = (origin, c)"
    by (cases x)
  show ?case
  proof (cases c)
    case (Issue tot)
    have "reachable lk (Suc n) (fst (dispatch lk s origin c))"
      using reachable.issue_step [OF Cons.prems, of origin tot] Issue by simp
    then show ?thesis
      using Cons.IH [of "Suc n"] x Issue by simp
  next
    case (Transfer aid target amount)
    then have "reachable lk n (fst (dispatch lk s origin c))"
      using Cons.prems by (intro reachable.other_step) simp_all
    then show ?thesis
      using Cons.IH [of n] x Transfer by simp
  next
    case (Destroy aid)
    then have "reachable lk n (fst (dispatch lk s origin c))"
      using Cons.prems by (intro reachable.other_step) simp_all
    then show ?thesis
      using Cons.IH [of n] x Destroy by simp
  qed
qed

subsection \<open>Runs within the id space\<close>

text \<open>
  A block whose issue calls fit in the ids left after \<open>NextAssetId\<close>, started in a
  state satisfying the invariant: every call of it starts in a state satisfying the
  invariant and, if it is an issue, with \<open>NextAssetId\<close> below its largest value. A
  property that each such call preserves holds at the end of the block.
\<close>

lemma dispatch_next_bound:
  fixes s :: "('acc, 'w::len word) chain"
  assumes "unat (NextAssetId s) + (if is_issue c then 1 else 0) < 2 ^ 32"
  shows "unat (NextAssetId (fst (dispatch lk s origin c))) \<le> unat (NextAssetId s) + (if is_issue c then 1 else 0)"
  using assms by (cases c) (simp_all add: issue_NextAssetId_unat)

lemma issue_not_max:
  "unat (n :: asset_id) + 1 < 2 ^ 32 \<Longrightarrow> n \<noteq> - 1"
  using unat_max_asset_id by auto

lemma bounded_cons:
  fixes s :: "('acc, 'w::len word) chain"
  assumes inv: "ledger_inv s" and b: "unat (NextAssetId s) + issue_count ((origin, c) # cs) < 2 ^ 32"
  shows "(is_issue c \<longrightarrow> NextAssetId s \<noteq> - 1) \<and> ledger_inv (fst (dispatch lk s origin c))
    \<and> unat (NextAssetId (fst (dispatch lk s origin c))) + issue_count cs < 2 ^ 32"
proof -
  let ?i = "if is_issue c then 1 else 0 :: nat"
  have bound: "unat (NextAssetId s) + ?i + issue_count cs < 2 ^ 32"
    using b by (simp split: if_split_asm)
  have nw: "is_issue c \<longrightarrow> NextAssetId s \<noteq> - 1"
  proof (intro impI)
    assume "is_issue c"
    with bound have "unat (NextAssetId s) + 1 < 2 ^ 32"
      by simp
    then show "NextAssetId s \<noteq> - 1"
      by (rule issue_not_max)
  qed
  moreover have "ledger_inv (fst (dispatch lk s origin c))"
    using inv nw by (intro dispatch_inv) simp_all
  moreover have "unat (NextAssetId (fst (dispatch lk s origin c))) + issue_count cs < 2 ^ 32"
    using dispatch_next_bound [of s c lk origin] bound by simp
  ultimately show ?thesis
    by blast
qed

lemma run_bounded_induct:
  fixes s :: "('acc, 'w::len word) chain"
  assumes "ledger_inv s" and "unat (NextAssetId s) + issue_count cs < 2 ^ 32" and "P s"
    and step: "\<And>t origin c. ledger_inv t \<Longrightarrow> (is_issue c \<Longrightarrow> NextAssetId t \<noteq> - 1) \<Longrightarrow>
                 (origin, c) \<in> set cs \<Longrightarrow> P t \<Longrightarrow> P (fst (dispatch lk t origin c))"
  shows "P (run lk s cs)"
  using assms
proof (induction cs arbitrary: s)
  case Nil
  then show ?case by simp
next
  case (Cons x cs)
  obtain origin c where x: "x = (origin, c)"
    by (cases x)
  from bounded_cons [of s origin c cs lk] Cons.prems(1,2) x
  have nw: "is_issue c \<Longrightarrow> NextAssetId s \<noteq> - 1"
    and inv': "ledger_inv (fst (dispatch lk s origin c))"
    and b': "unat (NextAssetId (fst (dispatch lk s origin c))) + issue_count cs < 2 ^ 32"
    by simp_all
  have "P (fst (dispatch lk s origin c))"
    by (rule Cons.prems(4)) (use Cons.prems(1,3) nw x in auto)
  with inv' b' have "P (run lk (fst (dispatch lk s origin c)) cs)"
    by (rule Cons.IH) (use Cons.prems(4) in auto)
  with x show ?case
    by simp
qed

subsection \<open>Finitely many entries in every reachable state\<close>

lemma dispatch_finite:
  assumes fin: "finite (dom (Balances s))"
  shows "finite (dom (Balances (fst (dispatch lk s origin c))))"
proof (cases c)
  case (Issue tot)
  with fin show ?thesis
    by (cases origin) (simp_all add: issue_Signed calls_unsigned)
next
  case (Transfer aid target amount)
  show ?thesis
  proof (cases rule: transfer_cases [of lk s origin aid target amount])
    case (rejected e)
    with fin Transfer show ?thesis
      by simp
  next
    case (accepted who tgt)
    with fin Transfer show ?thesis
      by simp
  qed
next
  case (Destroy aid)
  with fin show ?thesis
    by (cases origin) (simp_all add: destroy_Signed calls_unsigned)
qed

lemma reachable_finite: "reachable lk n s \<Longrightarrow> finite (dom (Balances s))"
  by (induction rule: reachable.induct)
    (auto simp: genesis_def simp del: dispatch.simps intro: dispatch_finite)

subsection \<open>Issuing past the end of the 32-bit id space\<close>

text \<open>
  \<open>k\<close> signed issues of nothing by one account advance \<open>NextAssetId\<close> by \<open>k\<close>
  (modulo \<open>2 ^ 32\<close>) and touch only the ids they allocate.
\<close>

lemma run_zero_issues:
  fixes s :: "('acc, 'w::len word) chain"
  shows "NextAssetId (run lk s (replicate k (Signed a, Issue 0))) = NextAssetId s + of_nat k
    \<and> (\<forall>aid. (\<forall>i<k. aid \<noteq> NextAssetId s + of_nat i) \<longrightarrow>
           balance (run lk s (replicate k (Signed a, Issue 0))) aid = balance s aid
         \<and> total_supply (run lk s (replicate k (Signed a, Issue 0))) aid = total_supply s aid)"
proof (induction k arbitrary: s)
  case 0
  then show ?case by simp
next
  case (Suc k)
  let ?s1 = "fst (issue s (Signed a) 0)"
  have n1: "NextAssetId ?s1 = NextAssetId s + 1"
    by (simp add: issue_Signed)
  have keep: "balance ?s1 aid = balance s aid \<and> total_supply ?s1 aid = total_supply s aid"
    if "aid \<noteq> NextAssetId s" for aid
    using that by (simp add: issue_Signed fun_eq_iff balance_def total_supply_def storage_simps)
  have shift: "NextAssetId s + 1 + of_nat i = NextAssetId s + of_nat (Suc i)" for i
    by simp
  show ?case
  proof (intro conjI allI impI)
    show "NextAssetId (run lk s (replicate (Suc k) (Signed a, Issue 0))) = NextAssetId s + of_nat (Suc k)"
      using Suc.IH [of ?s1] n1 by simp
  next
    fix aid
    assume out: "\<forall>i<Suc k. aid \<noteq> NextAssetId s + of_nat i"
    then have "\<forall>i<k. aid \<noteq> NextAssetId ?s1 + of_nat i"
      using n1 shift by auto
    moreover have "aid \<noteq> NextAssetId s"
      using out [rule_format, of 0] by simp
    ultimately show "balance (run lk s (replicate (Suc k) (Signed a, Issue 0))) aid = balance s aid"
      and "total_supply (run lk s (replicate (Suc k) (Signed a, Issue 0))) aid = total_supply s aid"
      using Suc.IH [of ?s1] keep by simp_all
  qed
qed

lemma asset_id_no_wrap: "i < 2 ^ 32 - 1 \<Longrightarrow> (0 :: asset_id) \<noteq> 1 + of_nat i"
proof
  assume lt: "i < 2 ^ 32 - 1" and eq: "(0 :: asset_id) = 1 + of_nat i"
  have "unat ((1 :: asset_id) + of_nat i) = Suc i"
    using lt by (simp add: unat_of_nat unat_word_ariths)
  with eq show False
    by simp
qed


subsection \<open>Conservation, and where it ends\<close>

text \<open>
  C1: in every state reachable from genesis by any calls, failed ones included, with
  fewer than \<open>2 ^ 32\<close> issue calls, every asset's supply equals the sum of its
  holders' balances, no asset at or above \<open>NextAssetId\<close> has a balance, and
  \<open>NextAssetId\<close> is at most the number of issues.
\<close>

theorem reachable_conserved:
  fixes s :: "('acc, 'w::len word) chain"
  assumes "reachable lk n s" and "n < 2 ^ 32"
  shows "(\<forall>aid. unat (total_supply s aid) = (\<Sum>c \<in> holders (Balances s) aid. unat (balance s aid c)))
    \<and> (\<forall>aid c. NextAssetId s \<le> aid \<longrightarrow> balance s aid c = 0)
    \<and> finite (dom (Balances s)) \<and> unat (NextAssetId s) \<le> n"
  using reachable_inv_next [OF assms]
  by (simp add: ledger_inv_def conserved_def unissued_empty_def holdings_def)

text \<open>
  C2: the bound is needed. After \<open>2 ^ 32 + 1\<close> issues, the last one by Bob of 5 units,
  \<open>NextAssetId\<close> has wrapped and Bob's issue reuses asset 0, whose supply it
  overwrites with 5 while Alice still holds the 1 unit she issued first: the supply of
  asset 0 is no longer the sum of its balances.
\<close>

theorem issue_wrap_breaks_conservation:
  "\<exists>s :: (nat, 64 word) chain. reachable (Some :: nat \<Rightarrow> nat option) (2 ^ 32 + 1) s
     \<and> total_supply s 0 = 5 \<and> balance s 0 1 = 1 \<and> balance s 0 2 = 5 \<and> \<not> conserved s"
proof -
  define s1 :: "(nat, 64 word) chain" where "s1 = fst (issue genesis (Signed 1) 1)"
  define s2 where "s2 = run (Some :: nat \<Rightarrow> nat option) s1 (replicate (2 ^ 32 - 1) (Signed 1, Issue 0))"
  define s3 where "s3 = fst (issue s2 (Signed 2) 5)"
  have "reachable (Some :: nat \<Rightarrow> nat option) (Suc 0) (fst (dispatch Some genesis (Signed 1) (Issue 1)))"
    by (rule reachable.issue_step [OF reachable.genesis])
  then have r1: "reachable (Some :: nat \<Rightarrow> nat option) 1 s1"
    by (simp add: s1_def)
  have "reachable (Some :: nat \<Rightarrow> nat option) (1 + (2 ^ 32 - 1)) s2"
    unfolding s2_def using reachable_run [OF r1] by (metis issue_count_simps(3))
  then have r3: "reachable (Some :: nat \<Rightarrow> nat option) (2 ^ 32 + 1) s3"
    using reachable.issue_step [of Some "2 ^ 32" s2 "Signed 2" 5] by (simp add: s3_def)
  have n1: "NextAssetId s1 = 1" and b1: "balance s1 0 = (balance genesis 0)(1 := 1)"
    and t1: "total_supply s1 0 = 1"
    by (simp_all add: s1_def issue_Signed genesis_def balance_def total_supply_def storage_simps fun_eq_iff)
  have out: "\<forall>i < 2 ^ 32 - 1. (0 :: asset_id) \<noteq> NextAssetId s1 + of_nat i"
    using n1 asset_id_no_wrap by simp
  have n2: "NextAssetId s2 = 0"
    using run_zero_issues [of Some s1 "2 ^ 32 - 1" 1] n1 by (simp add: s2_def)
  have b2: "balance s2 0 1 = 1" and t2: "total_supply s2 0 = 1"
    using run_zero_issues [of Some s1 "2 ^ 32 - 1" 1] out b1 t1 by (simp_all add: s2_def)
  have b3: "balance s3 0 1 = 1" "balance s3 0 2 = 5" and t3: "total_supply s3 0 = 5"
    using n2 b2 by (simp_all add: s3_def issue_Signed balance_def total_supply_def storage_simps)
  have "6 \<le> holdings s3 0"
    using holdings_two_le [OF reachable_finite [OF r3], of 1 2 0] b3 by simp
  moreover have "unat (total_supply s3 0) = 5"
    using t3 by simp
  ultimately have "\<not> conserved s3"
  proof (unfold conserved_def, intro notI)
    assume "6 \<le> holdings s3 0" and "unat (total_supply s3 0) = 5"
      and "\<forall>aid. unat (total_supply s3 aid) = holdings s3 aid"
    then show False by simp
  qed
  with r3 b3 t3 show ?thesis
    by blast
qed


subsection \<open>Asset ids are allocated in order\<close>

lemma issued_ids_append [simp]: "issued_ids (es @ es') = issued_ids es @ issued_ids es'"
  by (induction es rule: issued_ids.induct) simp_all

lemma dispatch_issued_ids:
  assumes "\<not> is_issue c"
  shows "issued_ids (Events (fst (dispatch lk s origin c))) = issued_ids (Events s)"
proof (cases c)
  case (Transfer aid target amount)
  show ?thesis
  proof (cases rule: transfer_cases [of lk s origin aid target amount])
    case (rejected e)
    with Transfer show ?thesis
      by simp
  next
    case (accepted who tgt)
    with Transfer show ?thesis
      by simp
  qed
next
  case (Destroy aid)
  then show ?thesis
    by (cases origin) (simp_all add: destroy_Signed calls_unsigned)
qed (use assms in simp)

text \<open>
  C13: in every state reachable with fewer than \<open>2 ^ 32\<close> issue calls, the ids of the
  \<open>Issued\<close> events, in the order they were emitted, are \<open>0, 1, 2, \<dots>\<close> up to
  \<open>NextAssetId\<close>: ids are allocated sequentially from zero, each exactly once.
\<close>

theorem issued_ids_sequential:
  fixes s :: "('acc, 'w::len word) chain"
  assumes "reachable lk n s" and "n < 2 ^ 32"
  shows "map unat (issued_ids (Events s)) = [0..<unat (NextAssetId s)]"
  using assms
proof (induction rule: reachable.induct)
  case genesis
  show ?case by (simp add: genesis_def)
next
  case (issue_step n s origin tot)
  then have ih: "map unat (issued_ids (Events s)) = [0..<unat (NextAssetId s)]"
    by simp
  have "unat (NextAssetId s) \<le> n"
    using reachable_inv_next [OF issue_step.hyps(1)] issue_step.prems by simp
  with issue_step.prems have "NextAssetId s \<noteq> - 1"
    using unat_max_asset_id by auto
  with ih show ?case
    by (cases origin) (simp_all add: issue_Signed calls_unsigned unat_succ_no_wrap)
next
  case (other_step n s c origin)
  then show ?case
    by (simp add: dispatch_issued_ids dispatch_NextAssetId)
qed


subsection \<open>Events\<close>

text \<open>
  Every call keeps the events already recorded and appends exactly one event when it
  succeeds and none when it is rejected.
\<close>

lemma dispatch_events_step:
  "\<exists>es. Events (fst (dispatch lk s origin c)) = Events s @ es
     \<and> length es = (case snd (dispatch lk s origin c) of Inl _ \<Rightarrow> 0 | Inr _ \<Rightarrow> 1)"
proof (cases c)
  case (Issue tot)
  then show ?thesis
    by (cases origin) (simp_all add: issue_Signed calls_unsigned)
next
  case (Transfer aid target amount)
  show ?thesis
  proof (cases rule: transfer_cases [of lk s origin aid target amount])
    case (rejected e)
    with Transfer show ?thesis
      by simp
  next
    case (accepted who tgt)
    with Transfer show ?thesis
      by simp
  qed
next
  case (Destroy aid)
  then show ?thesis
    by (cases origin) (simp_all add: destroy_Signed calls_unsigned)
qed


text \<open>
  C14: a block of calls of any kinds and origins keeps the events already recorded
  and appends exactly as many events as it has successful calls: the results the
  block returns, \<open>run_results\<close>, and the log it leaves agree.
\<close>

theorem run_events_count:
  "\<exists>es. Events (run lk s cs) = Events s @ es \<and> length es = length (filter (Not \<circ> isl) (run_results lk s cs))"
proof (induction cs arbitrary: s)
  case Nil
  then show ?case by simp
next
  case (Cons x cs)
  obtain origin c where x: "x = (origin, c)"
    by (cases x)
  obtain es1 where e1: "Events (fst (dispatch lk s origin c)) = Events s @ es1"
    and l1: "length es1 = (case snd (dispatch lk s origin c) of Inl _ \<Rightarrow> 0 | Inr _ \<Rightarrow> 1)"
    using dispatch_events_step by blast
  obtain es2 where e2: "Events (run lk (fst (dispatch lk s origin c)) cs) = Events (fst (dispatch lk s origin c)) @ es2"
    and l2: "length es2 = length (filter (Not \<circ> isl) (run_results lk (fst (dispatch lk s origin c)) cs))"
    using Cons.IH by blast
  have "Events (run lk s (x # cs)) = Events s @ (es1 @ es2)"
    using x e1 e2 by simp
  moreover have "length (es1 @ es2) = length (filter (Not \<circ> isl) (run_results lk s (x # cs)))"
    using x l1 l2 by (simp split: sum.split)
  ultimately show ?case
    by blast
qed


subsection \<open>Assets are isolated from each other\<close>

text \<open>
  C15: a call changes no balance and no supply of any asset other than the one it
  works on: the asset named by \<open>transfer\<close> or \<open>destroy\<close>, the fresh asset
  \<open>NextAssetId\<close> for \<open>issue\<close>.
\<close>

theorem dispatch_other_assets:
  assumes "aid' \<noteq> call_asset s c"
  shows "balance (fst (dispatch lk s origin c)) aid' = balance s aid'
    \<and> total_supply (fst (dispatch lk s origin c)) aid' = total_supply s aid'"
proof (cases c)
  case (Issue tot)
  with assms show ?thesis
    by (cases origin) (auto simp: issue_Signed calls_unsigned balance_def total_supply_def storage_simps)
next
  case (Transfer aid target amount)
  show ?thesis
  proof (cases rule: transfer_cases [of lk s origin aid target amount])
    case (rejected e)
    with Transfer show ?thesis
      by simp
  next
    case (accepted who tgt)
    with Transfer assms show ?thesis
      by (auto simp: balance_def total_supply_def storage_simps)
  qed
next
  case (Destroy aid)
  with assms show ?thesis
    by (cases origin) (auto simp: destroy_Signed calls_unsigned balance_def total_supply_def storage_simps)
qed

end
