(* ===== verification/Token_Safety.thy ===== *)
theory Token_Safety
  imports Token_Dispatch
begin

text \<open>
  Safety of the ledger across blocks. Only the holder can lower its own balance: a
  call from any other origin leaves every balance of the account as it was or raises
  it, and so does a whole block none of whose calls is signed by the account. No asset
  is inflated after it is issued: along a block whose issue calls fit in the ids that
  are left, the supply of an issued asset never grows.
\<close>

subsection \<open>One call\<close>

lemma transfer_credit_only:
  fixes s :: "('acc, 'w::len word) chain"
  assumes inv: "ledger_inv s" and o: "origin \<noteq> Signed who"
  shows "unat (balance s aid who) \<le> unat (balance (fst (transfer lk s origin aid' target amount)) aid who)"
proof (cases rule: transfer_cases [of lk s origin aid' target amount])
  case (rejected e)
  then show ?thesis
    by simp
next
  case (accepted w tgt)
  let ?s' = "fst (transfer lk s origin aid' target amount)"
  from accepted have ow: "origin = Signed w" and le: "amount \<le> balance s aid' w"
    and B: "Balances ?s' = (Balances s)((aid', w) \<mapsto> balance s aid' w - amount,
         (aid', tgt) \<mapsto> (if tgt = w then balance s aid' w - amount else balance s aid' tgt) + amount)"
    by simp_all
  have nw: "who \<noteq> w"
    using o ow by blast
  show ?thesis
  proof (cases "(aid, who) = (aid', tgt)")
    case True
    have "unat (balance s aid' tgt) + unat amount < 2 ^ LENGTH('w)"
      using inv_pair_no_wrap [OF inv, of tgt w aid'] True nw le word_le_nat_alt [of amount] by simp
    then have "unat (balance s aid' tgt + amount) = unat (balance s aid' tgt) + unat amount"
      by (rule unat_add_no_wrap)
    with True nw B show ?thesis
      by (simp add: balance_def storage_simps)
  next
    case False
    with nw B show ?thesis
      by (auto simp: balance_def storage_simps)
  qed
qed

lemma dispatch_credit_only:
  fixes s :: "('acc, 'w::len word) chain"
  assumes inv: "ledger_inv s" and o: "origin \<noteq> Signed who"
  shows "unat (balance s aid who) \<le> unat (balance (fst (dispatch lk s origin c)) aid who)"
proof (cases c)
  case (Issue tot)
  with o show ?thesis
    by (cases origin) (auto simp: issue_Signed calls_unsigned balance_def storage_simps)
next
  case (Transfer aid' target amount)
  with inv o show ?thesis
    by (simp add: transfer_credit_only)
next
  case (Destroy aid')
  with o show ?thesis
    by (cases origin) (auto simp: destroy_Signed calls_unsigned balance_def storage_simps)
qed

lemma dispatch_supply_le:
  fixes s :: "('acc, 'w::len word) chain"
  assumes inv: "ledger_inv s" and lt: "aid < NextAssetId s"
  shows "unat (total_supply (fst (dispatch lk s origin c)) aid) \<le> unat (total_supply s aid)"
proof (cases c)
  case (Issue tot)
  with lt show ?thesis
    by (cases origin) (auto simp: issue_Signed calls_unsigned total_supply_def storage_simps)
next
  case (Transfer aid' target amount)
  then show ?thesis
    by (simp add: total_supply_def)
next
  case (Destroy aid')
  show ?thesis
  proof (cases origin)
    case (Signed w)
    have "unat (balance s aid w) \<le> unat (total_supply s aid)"
      using inv holdings_one_le [of s aid w] by (simp add: ledger_inv_def conserved_def)
    then have "unat (total_supply s aid - balance s aid w) = unat (total_supply s aid) - unat (balance s aid w)"
      by (rule unat_sub_no_wrap)
    with Signed Destroy show ?thesis
      by (auto simp: destroy_Signed total_supply_def storage_simps)
  qed (simp_all add: Destroy calls_unsigned)
qed

lemma dispatch_next_mono:
  assumes nw: "is_issue c \<Longrightarrow> NextAssetId s \<noteq> - 1" and lt: "aid < NextAssetId s"
  shows "aid < NextAssetId (fst (dispatch lk s origin c))"
proof (cases "is_issue c")
  case True
  then obtain tot where c: "c = Issue tot"
    by (cases c) simp_all
  have "unat (NextAssetId s) < unat (NextAssetId s + 1)"
    using nw True by (simp add: unat_succ_no_wrap)
  with lt have "aid < NextAssetId s + 1"
    by (simp add: word_less_nat_alt)
  with lt c show ?thesis
    by (cases origin) (simp_all add: issue_Signed calls_unsigned)
next
  case False
  with lt show ?thesis
    by (simp add: dispatch_NextAssetId)
qed


subsection \<open>Blocks\<close>

text \<open>
  C16: in a block whose issue calls fit in the ids left, started in a state satisfying
  the ledger invariant, no call of which is signed by the account \<open>who\<close>, no balance
  of \<open>who\<close> goes down: only the holder can spend or destroy its assets.
\<close>

theorem run_credit_only:
  fixes s :: "('acc, 'w::len word) chain" and cs :: "('acc origin \<times> ('src, 'w word) call) list"
  assumes inv: "ledger_inv s" and b: "unat (NextAssetId s) + issue_count cs < 2 ^ 32"
    and others: "\<forall>(origin, c) \<in> set cs. origin \<noteq> Signed who"
  shows "unat (balance s aid who) \<le> unat (balance (run lk s cs) aid who)"
  using inv b
proof (rule run_bounded_induct [where P = "\<lambda>t. unat (balance s aid who) \<le> unat (balance t aid who)"])
  fix t :: "('acc, 'w word) chain" and origin and c :: "('src, 'w word) call"
  assume "ledger_inv t" and "(origin, c) \<in> set cs"
    and "unat (balance s aid who) \<le> unat (balance t aid who)"
  with others show "unat (balance s aid who) \<le> unat (balance (fst (dispatch lk t origin c)) aid who)"
    using dispatch_credit_only [of t origin who aid lk c] by fastforce
qed simp

text \<open>
  C17: in a block whose issue calls fit in the ids left, started in a state satisfying
  the ledger invariant, the total supply of an asset already issued never grows: only
  \<open>destroy\<close> changes it, and only downwards.
\<close>

theorem run_no_inflation:
  fixes s :: "('acc, 'w::len word) chain" and cs :: "('acc origin \<times> ('src, 'w word) call) list"
  assumes inv: "ledger_inv s" and b: "unat (NextAssetId s) + issue_count cs < 2 ^ 32"
    and lt: "aid < NextAssetId s"
  shows "unat (total_supply (run lk s cs) aid) \<le> unat (total_supply s aid)"
proof -
  have "aid < NextAssetId (run lk s cs) \<and> unat (total_supply (run lk s cs) aid) \<le> unat (total_supply s aid)"
    using inv b
  proof (rule run_bounded_induct [where P = "\<lambda>t. aid < NextAssetId t \<and> unat (total_supply t aid) \<le> unat (total_supply s aid)"])
    fix t :: "('acc, 'w word) chain" and origin and c :: "('src, 'w word) call"
    assume "ledger_inv t" and "is_issue c \<Longrightarrow> NextAssetId t \<noteq> - 1"
      and "aid < NextAssetId t \<and> unat (total_supply t aid) \<le> unat (total_supply s aid)"
    then show "aid < NextAssetId (fst (dispatch lk t origin c))
        \<and> unat (total_supply (fst (dispatch lk t origin c)) aid) \<le> unat (total_supply s aid)"
      using dispatch_next_mono dispatch_supply_le [of t aid lk origin c] by fastforce
  qed (simp add: lt)
  then show ?thesis
    by simp
qed

end
