(* ===== verification/Token_Abstract.thy ===== *)
theory Token_Abstract
  imports Token_Invariant
begin

text \<open>
  The contract of the specification (section 4) as an abstract ledger: balances and
  supplies are natural numbers that never wrap, the next asset id is a natural number,
  every rejected operation leaves the ledger exactly as it was, and issuing fails once
  the 32-bit id space is used up. \<open>abs_of\<close> reads a chain state as an abstract ledger
  through the module's getters. The refinement theorems say that each call of the
  module, seen through \<open>abs_of\<close>, is the abstract operation: for \<open>transfer\<close> and
  \<open>destroy\<close> in every state satisfying the ledger invariant, for \<open>issue\<close> exactly
  when \<open>NextAssetId\<close> is not the largest 32-bit value.
\<close>

record 'acc abs_ledger =
  abal :: "asset_id \<Rightarrow> 'acc \<Rightarrow> nat"
  asupply :: "asset_id \<Rightarrow> nat"
  anext :: nat
  alog :: "('acc, nat) event list"

definition abs_of :: "('acc, 'w::len word) chain \<Rightarrow> 'acc abs_ledger" where
  "abs_of s = \<lparr>abal = (\<lambda>aid c. unat (balance s aid c)), asupply = (\<lambda>aid. unat (total_supply s aid)),
               anext = unat (NextAssetId s), alog = map (map_event id unat) (Events s)\<rparr>"

definition set_bal :: "'acc abs_ledger \<Rightarrow> asset_id \<Rightarrow> 'acc \<Rightarrow> nat \<Rightarrow> 'acc abs_ledger" where
  "set_bal A aid c v = A\<lparr>abal := (abal A)(aid := (abal A aid)(c := v))\<rparr>"

definition abs_issue :: "'acc abs_ledger \<Rightarrow> 'acc \<Rightarrow> nat \<Rightarrow> 'acc abs_ledger option" where
  "abs_issue A who tot =
     (if anext A < 2 ^ 32 then
        (let aid = of_nat (anext A)
         in Some ((set_bal A aid who tot)\<lparr>asupply := (asupply A)(aid := tot), anext := anext A + 1,
                                         alog := alog A @ [Issued aid who tot]\<rparr>))
      else None)"

definition abs_transfer ::
  "'acc abs_ledger \<Rightarrow> 'acc \<Rightarrow> asset_id \<Rightarrow> 'acc \<Rightarrow> nat \<Rightarrow> 'acc abs_ledger \<times> (dispatch_error + unit)" where
  "abs_transfer A who aid tgt amount =
     (if amount = 0 then (A, Inl ZeroAmount)
      else if abal A aid who < amount then (A, Inl InsufficientBalance)
      else
        (let A1 = set_bal A aid who (abal A aid who - amount);
             A2 = set_bal A1 aid tgt (abal A1 aid tgt + amount)
         in (A2\<lparr>alog := alog A @ [Transferred aid who tgt amount]\<rparr>, Inr ())))"

definition abs_destroy ::
  "'acc abs_ledger \<Rightarrow> 'acc \<Rightarrow> asset_id \<Rightarrow> 'acc abs_ledger \<times> (dispatch_error + unit)" where
  "abs_destroy A who aid =
     (let b = abal A aid who
      in if b = 0 then (A, Inl ZeroBalance)
         else ((set_bal A aid who 0)\<lparr>asupply := (asupply A)(aid := asupply A aid - b),
                                     alog := alog A @ [Destroyed aid who b]\<rparr>, Inr ()))"

subsection \<open>Reading the abstraction\<close>

lemma abs_of_fields [simp]:
  "abal (abs_of s) aid c = unat (balance s aid c)"
  "asupply (abs_of s) aid = unat (total_supply s aid)"
  "anext (abs_of s) = unat (NextAssetId s)"
  "alog (abs_of s) = map (map_event id unat) (Events s)"
  by (simp_all add: abs_of_def)

lemma abs_ledger_eqI:
  assumes "\<And>aid c. abal A aid c = abal B aid c" and "\<And>aid. asupply A aid = asupply B aid"
    and "anext A = anext B" and "alog A = alog B" and "abs_ledger.more A = abs_ledger.more B"
  shows "A = B"
  using assms by (cases A, cases B) (auto simp: fun_eq_iff)

lemma set_bal_fields [simp]:
  "abal (set_bal A aid c v) aid' c' = (if (aid', c') = (aid, c) then v else abal A aid' c')"
  "asupply (set_bal A aid c v) = asupply A"
  "anext (set_bal A aid c v) = anext A"
  "alog (set_bal A aid c v) = alog A"
  "abs_ledger.more (set_bal A aid c v) = abs_ledger.more A"
  by (simp_all add: set_bal_def)

lemma abs_of_more [simp]: "abs_ledger.more (abs_of s) = ()"
  by (simp add: abs_of_def)


subsection \<open>Refinement\<close>

text \<open>
  While \<open>NextAssetId\<close> is not the largest 32-bit value, a signed \<open>issue\<close> seen
  through \<open>abs_of\<close> is the abstract issue.
\<close>

lemma issue_abs_step:
  fixes s :: "('acc, 'w::len word) chain"
  assumes nw: "NextAssetId s \<noteq> - 1"
  shows "abs_issue (abs_of s) who (unat tot) = Some (abs_of (fst (issue s (Signed who) tot)))"
proof -
  let ?n = "NextAssetId s"
  have lt: "unat ?n < 2 ^ 32"
    by (rule unat_asset_id_lt)
  have "abs_of (fst (issue s (Signed who) tot)) =
        (set_bal (abs_of s) ?n who (unat tot))\<lparr>asupply := (asupply (abs_of s))(?n := unat tot),
           anext := anext (abs_of s) + 1, alog := alog (abs_of s) @ [Issued ?n who (unat tot)]\<rparr>"
    using nw
    by (intro abs_ledger_eqI)
      (simp_all add: issue_Signed balance_def total_supply_def storage_simps unat_succ_no_wrap)
  with lt show ?thesis
    by (simp add: abs_issue_def Let_def)
qed

text \<open>
  C10: a signed \<open>issue\<close>, seen through \<open>abs_of\<close>, is the abstract issue exactly when
  \<open>NextAssetId\<close> is not the largest 32-bit value; at that value the abstract ledger
  moves on to id \<open>2 ^ 32\<close> (and will refuse further issues), while the code wraps its
  counter to 0.
\<close>

theorem issue_refines:
  fixes s :: "('acc, 'w::len word) chain"
  shows "abs_issue (abs_of s) who (unat tot) = Some (abs_of (fst (issue s (Signed who) tot)))
         \<longleftrightarrow> NextAssetId s \<noteq> - 1"
proof
  assume eq: "abs_issue (abs_of s) who (unat tot) = Some (abs_of (fst (issue s (Signed who) tot)))"
  have "unat (NextAssetId s) < 2 ^ 32"
    by (rule unat_asset_id_lt)
  then have "map_option anext (abs_issue (abs_of s) who (unat tot)) = Some (unat (NextAssetId s) + 1)"
    by (simp add: abs_issue_def Let_def)
  with eq have "unat (NextAssetId s) + 1 = unat (NextAssetId s + 1)"
    by (simp add: issue_Signed)
  then show "NextAssetId s \<noteq> - 1"
    by auto
next
  assume "NextAssetId s \<noteq> - 1"
  then show "abs_issue (abs_of s) who (unat tot) = Some (abs_of (fst (issue s (Signed who) tot)))"
    by (rule issue_abs_step)
qed

text \<open>Removing an entry that holds zero is invisible to the getters.\<close>

lemma abs_of_take_zero:
  "balance s aid who = 0 \<Longrightarrow> abs_of (s\<lparr>Balances := (Balances s)((aid, who) := None)\<rparr>) = abs_of s"
  by (intro abs_ledger_eqI) (simp_all add: balance_def storage_simps)

text \<open>
  Under the ledger invariant, \<open>destroy\<close> seen through \<open>abs_of\<close> is the abstract
  destroy, on both branches: in particular its rejected zero-balance call, which
  removes a storage entry, is the abstract no-op.
\<close>

lemma destroy_abs_step:
  fixes s :: "('acc, 'w::len word) chain"
  assumes inv: "ledger_inv s"
  shows "map_prod abs_of id (destroy s (Signed who) aid) = abs_destroy (abs_of s) who aid"
proof (cases "balance s aid who = 0")
  case True
  then have "abs_of (s\<lparr>Balances := (Balances s)((aid, who) := None)\<rparr>) = abs_of s"
    by (rule abs_of_take_zero)
  with True show ?thesis
    by (simp add: destroy_Signed abs_destroy_def)
next
  case False
  have fin: "finite (dom (Balances s))" and cons: "conserved s"
    using inv by (simp_all add: ledger_inv_def)
  have "unat (balance s aid who) \<le> unat (total_supply s aid)"
    using holdings_one_le [OF fin] cons by (simp add: conserved_def)
  then have sub: "unat (total_supply s aid - balance s aid who) = unat (total_supply s aid) - unat (balance s aid who)"
    by (rule unat_sub_no_wrap)
  let ?A = "abs_of s" and ?b = "unat (balance s aid who)"
  have "abs_of (fst (destroy s (Signed who) aid)) =
        (set_bal ?A aid who 0)\<lparr>asupply := (asupply ?A)(aid := asupply ?A aid - ?b),
                               alog := alog ?A @ [Destroyed aid who ?b]\<rparr>"
    using False sub
    by (intro abs_ledger_eqI) (auto simp: destroy_Signed balance_def total_supply_def storage_simps)
  moreover have "?b \<noteq> 0"
    using False by (simp add: unat_eq_zero)
  ultimately show ?thesis
    using False by (simp add: destroy_Signed abs_destroy_def Let_def)
qed


text \<open>
  Under the ledger invariant, once the target account is resolved, \<open>transfer\<close>
  seen through \<open>abs_of\<close> is the abstract transfer on natural numbers: the same
  error in the same order, and on success the same balances and event.
\<close>

lemma transfer_abs_step:
  fixes s :: "('acc, 'w::len word) chain"
  assumes inv: "ledger_inv s" and tgt: "lk target = Some tgt"
  shows "map_prod abs_of id (transfer lk s (Signed who) aid target amount) =
         abs_transfer (abs_of s) who aid tgt (unat amount)"
proof -
  let ?A = "abs_of s" and ?ob = "balance s aid who" and ?tb = "balance s aid tgt"
  consider (zero) "amount = 0" | (short) "amount \<noteq> 0" "?ob < amount"
    | (ok) "amount \<noteq> 0" "amount \<le> ?ob"
    by fastforce
  then show ?thesis
  proof cases
    case zero
    with tgt show ?thesis
      by (simp add: transfer_def abs_transfer_def)
  next
    case short
    then have "unat amount \<noteq> 0" and "unat ?ob < unat amount"
      by (simp_all add: unat_eq_zero word_less_nat_alt)
    with short tgt show ?thesis
      by (simp add: transfer_def abs_transfer_def balance_def Let_def not_le)
  next
    case ok
    have an: "unat amount \<noteq> 0" and ale: "unat amount \<le> unat ?ob"
      using ok by (simp_all add: unat_eq_zero word_le_nat_alt)
    have sub: "unat (?ob - amount) = unat ?ob - unat amount"
      using ale by (rule unat_sub_no_wrap)
    let ?A1 = "set_bal ?A aid who (abal ?A aid who - unat amount)"
    let ?A2 = "set_bal ?A1 aid tgt (abal ?A1 aid tgt + unat amount)"
    have "abs_of (fst (transfer lk s (Signed who) aid target amount)) =
          ?A2\<lparr>alog := alog ?A @ [Transferred aid who tgt (unat amount)]\<rparr>"
    proof (cases "tgt = who")
      case True
      with ok tgt show ?thesis
        using ale by (intro abs_ledger_eqI) (auto simp: transfer_ok_eq balance_def total_supply_def storage_simps)
    next
      case False
      have "unat (?tb + amount) = unat ?tb + unat amount"
        using inv_pair_no_wrap [OF inv False, of aid] ale by (intro unat_add_no_wrap) simp
      with False ok tgt sub show ?thesis
        by (intro abs_ledger_eqI) (auto simp: transfer_ok_eq balance_def total_supply_def storage_simps)
    qed
    moreover have "snd (transfer lk s (Signed who) aid target amount) = Inr ()"
      using ok tgt by (simp add: transfer_ok_eq Let_def)
    ultimately show ?thesis
      using an ale by (simp add: abs_transfer_def Let_def not_less prod_eq_iff)
  qed
qed

end
