(* ===== verification/Token_Refinement.thy ===== *)
theory Token_Refinement
  imports Token_Dispatch Token_Abstract
begin

text \<open>
  The refinement of section 4's contract lifted from single calls to whole blocks.
  \<open>abs_dispatch\<close> routes a call of the abstract ledger as \<open>dispatch\<close> routes a call
  of the module (the origin checked first, then the target resolved), and
  \<open>abs_run\<close> applies a list of them, stopping with \<open>None\<close> when an issue finds the
  id space used up. Seen through \<open>abs_of\<close>, every call of the module is its abstract
  call in a state satisfying the ledger invariant, as long as \<open>NextAssetId\<close> is not
  about to wrap, and a run of the module is the abstract run as long as its issue
  calls fit in the ids that are left.
\<close>

fun abs_dispatch ::
  "('src, 'acc) lookup \<Rightarrow> 'acc abs_ledger \<Rightarrow> 'acc origin \<Rightarrow> ('src, nat) call \<Rightarrow>
   ('acc abs_ledger \<times> (dispatch_error + unit)) option" where
  "abs_dispatch lk A (Signed who) (Issue tot) = map_option (\<lambda>A'. (A', Inr ())) (abs_issue A who tot)"
| "abs_dispatch lk A (Signed who) (Transfer aid target amount) =
     (case lk target of
        None \<Rightarrow> Some (A, Inl LookupError)
      | Some tgt \<Rightarrow> Some (abs_transfer A who aid tgt amount))"
| "abs_dispatch lk A (Signed who) (Destroy aid) = Some (abs_destroy A who aid)"
| "abs_dispatch lk A Root c = Some (A, Inl BadOrigin)"
| "abs_dispatch lk A Unsigned c = Some (A, Inl BadOrigin)"

fun abs_run ::
  "('src, 'acc) lookup \<Rightarrow> 'acc abs_ledger \<Rightarrow> ('acc origin \<times> ('src, nat) call) list \<Rightarrow>
   'acc abs_ledger option" where
  "abs_run lk A [] = Some A"
| "abs_run lk A ((origin, c) # cs) =
     (case abs_dispatch lk A origin c of
        None \<Rightarrow> None
      | Some (A', _) \<Rightarrow> abs_run lk A' cs)"

definition abs_call :: "('src, 'w::len word) call \<Rightarrow> ('src, nat) call" where
  "abs_call = map_call id unat"

lemma abs_call_simps [simp]:
  "abs_call (Issue tot) = Issue (unat tot)"
  "abs_call (Transfer aid target amount) = Transfer aid target (unat amount)"
  "abs_call (Destroy aid) = Destroy aid"
  by (simp_all add: abs_call_def)

text \<open>
  One call of any kind, seen through \<open>abs_of\<close>, is its abstract call, under the
  ledger invariant and, for an issue, while \<open>NextAssetId\<close> is not about to wrap.
\<close>

lemma dispatch_abs_step:
  fixes s :: "('acc, 'w::len word) chain"
  assumes inv: "ledger_inv s" and nw: "is_issue c \<Longrightarrow> NextAssetId s \<noteq> - 1"
  shows "abs_dispatch lk (abs_of s) origin (abs_call c) = Some (map_prod abs_of id (dispatch lk s origin c))"
proof (cases origin)
  case (Signed who)
  show ?thesis
  proof (cases c)
    case (Issue tot)
    with nw have "abs_issue (abs_of s) who (unat tot) = Some (abs_of (fst (issue s (Signed who) tot)))"
      by (intro issue_abs_step) simp
    with Signed Issue show ?thesis
      by (simp add: issue_Signed)
  next
    case (Transfer aid target amount)
    show ?thesis
    proof (cases "lk target")
      case None
      with Signed Transfer show ?thesis
        by (simp add: transfer_def)
    next
      case (Some tgt)
      with Signed Transfer show ?thesis
        using transfer_abs_step [of s lk target tgt who aid amount] inv Some by simp
    qed
  next
    case (Destroy aid)
    with Signed show ?thesis
      using destroy_abs_step [OF inv] by simp
  qed
qed (cases c; simp add: calls_unsigned)+

lemma dispatch_abs_pair:
  fixes s :: "('acc, 'w::len word) chain"
  assumes "ledger_inv s" and "is_issue c \<Longrightarrow> NextAssetId s \<noteq> - 1"
  shows "abs_dispatch lk (abs_of s) origin (abs_call c)
         = Some (abs_of (fst (dispatch lk s origin c)), snd (dispatch lk s origin c))"
  using dispatch_abs_step [of s c lk origin, OF assms] by (simp add: map_prod_def split_beta)

text \<open>
  C11: from any state satisfying the ledger invariant, a block of calls whose issue
  calls fit in the ids that are left is, seen through \<open>abs_of\<close>, a run of the
  abstract ledger on natural numbers: the abstract run is defined, and ends in the
  image of the state the module ends in. No balance or supply wraps on the way.
\<close>

theorem run_refines:
  fixes s :: "('acc, 'w::len word) chain"
  assumes "ledger_inv s" and "unat (NextAssetId s) + issue_count cs < 2 ^ 32"
  shows "abs_run lk (abs_of s) (map (map_prod id abs_call) cs) = Some (abs_of (run lk s cs))"
  using assms
proof (induction cs arbitrary: s)
  case Nil
  then show ?case by simp
next
  case (Cons x cs)
  obtain origin c where x: "x = (origin, c)"
    by (cases x)
  from bounded_cons [of s origin c cs lk] Cons.prems x
  have nw: "is_issue c \<Longrightarrow> NextAssetId s \<noteq> - 1"
    and inv': "ledger_inv (fst (dispatch lk s origin c))"
    and b': "unat (NextAssetId (fst (dispatch lk s origin c))) + issue_count cs < 2 ^ 32"
    by simp_all
  from inv' b' have "abs_run lk (abs_of (fst (dispatch lk s origin c))) (map (map_prod id abs_call) cs)
                  = Some (abs_of (run lk (fst (dispatch lk s origin c)) cs))"
    by (rule Cons.IH)
  with dispatch_abs_step [of s c lk origin, OF Cons.prems(1) nw] x show ?case
    by (cases "dispatch lk s origin c") (simp add: id_def)
qed

text \<open>
  A rejected call changes nothing the getters, the counter or the log can show.
\<close>

lemma dispatch_rejected_abs:
  fixes s :: "('acc, 'w::len word) chain"
  assumes "snd (dispatch lk s origin c) = Inl e"
  shows "abs_of (fst (dispatch lk s origin c)) = abs_of s"
proof (cases c)
  case (Issue tot)
  with assms show ?thesis
    by (cases origin) (simp_all add: issue_Signed calls_unsigned)
next
  case (Transfer aid target amount)
  with assms show ?thesis
    using transfer_Inl_state [of lk s origin aid target amount] by (cases "transfer lk s origin aid target amount") simp
next
  case (Destroy aid)
  show ?thesis
  proof (cases origin)
    case (Signed who)
    with assms Destroy have "balance s aid who = 0"
      by (simp add: destroy_Signed split: if_splits)
    with Signed Destroy show ?thesis
      by (simp add: destroy_Signed abs_of_take_zero)
  qed (simp_all add: Destroy calls_unsigned)
qed

subsection \<open>The module sees its storage through the getters only\<close>

text \<open>
  Two states that the getters, the counter and the log cannot tell apart (they may
  differ in which keys hold an explicit zero) behave the same under every call and
  every block.
\<close>

lemma storage_get_upd_fun: "storage_get (m(k \<mapsto> v)) = (storage_get m)(k := v)"
  by (simp add: fun_eq_iff storage_get_upd)

lemma storage_get_delete_fun: "storage_get (m(k := None)) = (storage_get m)(k := 0)"
  by (simp add: fun_eq_iff storage_get_delete)

lemma inj_unat: "inj (unat :: 'w::len word \<Rightarrow> nat)"
  by (rule injI) (rule unsigned_word_eqI)

lemma balance_eqI:
  fixes s t :: "('acc, 'w::len word, 'x) token_storage_scheme"
  shows "(\<And>aid c. unat (balance s aid c) = unat (balance t aid c)) \<Longrightarrow> balance s = balance t"
  by (auto simp: fun_eq_iff intro: unsigned_word_eqI)

lemma total_supply_eqI:
  fixes s t :: "('acc, 'w::len word, 'x) token_storage_scheme"
  shows "(\<And>aid. unat (total_supply s aid) = unat (total_supply t aid)) \<Longrightarrow> total_supply s = total_supply t"
  by (auto simp: fun_eq_iff intro: unsigned_word_eqI)

lemma abs_of_eq_iff:
  fixes s t :: "('acc, 'w::len word) chain"
  shows "abs_of s = abs_of t \<longleftrightarrow>
    storage_get (Balances s) = storage_get (Balances t) \<and> storage_get (TotalSupply s) = storage_get (TotalSupply t)
    \<and> NextAssetId s = NextAssetId t \<and> Events s = Events t"
proof
  assume eq: "abs_of s = abs_of t"
  have "unat (balance s aid c) = unat (balance t aid c)" for aid c
    using arg_cong [OF eq, of "\<lambda>A. abal A aid c"] by simp
  then have b: "storage_get (Balances s) = storage_get (Balances t)"
    by (auto simp: fun_eq_iff balance_def intro: unsigned_word_eqI)
  have "unat (total_supply s aid) = unat (total_supply t aid)" for aid
    using arg_cong [OF eq, of "\<lambda>A. asupply A aid"] by simp
  then have ts: "storage_get (TotalSupply s) = storage_get (TotalSupply t)"
    by (auto simp: fun_eq_iff total_supply_def intro: unsigned_word_eqI)
  have "unat (NextAssetId s) = unat (NextAssetId t)"
    using arg_cong [OF eq, of anext] by simp
  then have n: "NextAssetId s = NextAssetId t"
    by (rule unsigned_word_eqI)
  have "map (map_event id unat) (Events s) = map (map_event id unat) (Events t)"
    using arg_cong [OF eq, of alog] by simp
  moreover have "inj (map_event id (unat :: 'w word \<Rightarrow> nat) :: ('acc, 'w word) event \<Rightarrow> _)"
    by (intro event.inj_map inj_on_id inj_unat)
  ultimately have "Events s = Events t"
    by (simp add: inj_map_eq_map)
  with b ts n show "storage_get (Balances s) = storage_get (Balances t) \<and> storage_get (TotalSupply s) = storage_get (TotalSupply t)
    \<and> NextAssetId s = NextAssetId t \<and> Events s = Events t"
    by simp
next
  assume "storage_get (Balances s) = storage_get (Balances t) \<and> storage_get (TotalSupply s) = storage_get (TotalSupply t)
    \<and> NextAssetId s = NextAssetId t \<and> Events s = Events t"
  then show "abs_of s = abs_of t"
    by (simp add: abs_of_def balance_def total_supply_def)
qed

lemma dispatch_abs_cong:
  fixes s t :: "('acc, 'w::len word) chain"
  assumes "abs_of s = abs_of t"
  shows "map_prod abs_of id (dispatch lk s origin c) = map_prod abs_of id (dispatch lk t origin c)"
proof -
  from assms have g: "storage_get (Balances s) = storage_get (Balances t)"
    "storage_get (TotalSupply s) = storage_get (TotalSupply t)"
    "NextAssetId s = NextAssetId t" "Events s = Events t"
    by (simp_all add: abs_of_eq_iff)
  show ?thesis
    by (cases c; cases origin)
      (simp_all add: op_defs Let_def storage_prims storage_get_upd_fun storage_get_delete_fun
        deposit_event_def abs_of_eq_iff g assms split: option.split)
qed

lemma run_abs_cong:
  fixes s t :: "('acc, 'w::len word) chain"
  assumes "abs_of s = abs_of t"
  shows "abs_of (run lk s cs) = abs_of (run lk t cs)"
  using assms
proof (induction cs arbitrary: s t)
  case Nil
  then show ?case by simp
next
  case (Cons x cs)
  obtain origin c where x: "x = (origin, c)"
    by (cases x)
  have "abs_of (fst (dispatch lk s origin c)) = abs_of (fst (dispatch lk t origin c))"
    using dispatch_abs_cong [OF Cons.prems, of lk origin c] by (simp add: map_prod_def split_beta)
  then have "abs_of (run lk (fst (dispatch lk s origin c)) cs) = abs_of (run lk (fst (dispatch lk t origin c)) cs)"
    by (rule Cons.IH)
  with x show ?case
    by simp
qed

text \<open>
  C12: a rejected call of any kind and from any origin can be dropped from a block:
  the block without it ends in a state that the getters, the counter and the event
  log cannot tell from the end of the block with it. The writes a failed call leaves
  behind (the entry \<open>destroy\<close> takes before its check) never influence a later
  call.
\<close>

theorem run_drop_rejected:
  fixes s :: "('acc, 'w::len word) chain"
  assumes "snd (dispatch lk s origin c) = Inl e"
  shows "abs_of (run lk s ((origin, c) # cs)) = abs_of (run lk s cs)"
proof -
  have "abs_of (fst (dispatch lk s origin c)) = abs_of s"
    using assms by (rule dispatch_rejected_abs)
  then have "abs_of (run lk (fst (dispatch lk s origin c)) cs) = abs_of (run lk s cs)"
    by (rule run_abs_cong)
  then show ?thesis
    by simp
qed

end
