(* ===== verification/Token_Log.thy ===== *)
theory Token_Log
  imports Token_Refinement
begin

text \<open>
  The module's event log. The events the module deposits are a complete record of its ledger: replaying the
  \<open>Issued\<close>, \<open>Transferred\<close> and \<open>Destroyed\<close> events in order, each with the
  meaning the specification gives it, rebuilds every balance and every supply the
  getters read, in every state reachable within the id space. Every event names an
  asset that has been issued.
\<close>

type_synonym 'acc ledger_view = "(asset_id \<Rightarrow> 'acc \<Rightarrow> nat) \<times> (asset_id \<Rightarrow> nat)"

fun apply_event :: "('acc, nat) event \<Rightarrow> 'acc ledger_view \<Rightarrow> 'acc ledger_view" where
  "apply_event (Issued aid who tot) (b, tsup) = (b(aid := (b aid)(who := tot)), tsup(aid := tot))"
| "apply_event (Transferred aid who tgt amount) (b, tsup) =
     (let b1 = b(aid := (b aid)(who := b aid who - amount))
      in (b1(aid := (b1 aid)(tgt := b1 aid tgt + amount)), tsup))"
| "apply_event (Destroyed aid who bal) (b, tsup) =
     (b(aid := (b aid)(who := b aid who - bal)), tsup(aid := tsup aid - bal))"

definition replay :: "('acc, nat) event list \<Rightarrow> 'acc ledger_view" where
  "replay es = foldl (\<lambda>v e. apply_event e v) (\<lambda>_ _. 0, \<lambda>_. 0) es"

definition view_of :: "('acc, 'w::len word) chain \<Rightarrow> 'acc ledger_view" where
  "view_of s = (\<lambda>aid c. unat (balance s aid c), \<lambda>aid. unat (total_supply s aid))"

fun event_asset :: "('acc, 'bal) event \<Rightarrow> asset_id" where
  "event_asset (Issued aid _ _) = aid"
| "event_asset (Transferred aid _ _ _) = aid"
| "event_asset (Destroyed aid _ _) = aid"

definition events_wf :: "('acc, 'bal) chain \<Rightarrow> bool" where
  "events_wf s \<longleftrightarrow> list_all (\<lambda>e. event_asset e < NextAssetId s) (Events s)"

definition storage_wf :: "('acc, 'bal, 'x) token_storage_scheme \<Rightarrow> bool" where
  "storage_wf s \<longleftrightarrow> dom (Balances s) \<subseteq> {k. fst k < NextAssetId s}
                   \<and> dom (TotalSupply s) \<subseteq> {aid. aid < NextAssetId s}"

subsection \<open>Runs and reachable states\<close>

lemma run_append [simp]: "run lk s (cs @ ds) = run lk (run lk s cs) ds"
  by (induction lk s cs rule: run.induct) simp_all

lemma issue_count_append [simp]: "issue_count (cs @ ds) = issue_count cs + issue_count ds"
  by (simp add: issue_count_def)

subsection \<open>Replaying the log on the abstract ledger\<close>

lemma replay_snoc [simp]: "replay (es @ [e]) = apply_event e (replay es)"
  by (simp add: replay_def)

lemma replay_Nil [simp]: "replay [] = (\<lambda>_ _. 0, \<lambda>_. 0)"
  by (simp add: replay_def)

lemma abs_dispatch_replay:
  assumes r: "replay (alog A) = (abal A, asupply A)"
    and d: "abs_dispatch lk A origin c = Some (A', res)"
  shows "replay (alog A') = (abal A', asupply A')"
proof (cases origin)
  case (Signed who)
  show ?thesis
  proof (cases c)
    case (Issue tot)
    with d Signed r show ?thesis
      by (auto simp: abs_issue_def Let_def set_bal_def split: if_splits)
  next
    case (Transfer aid target amount)
    with d Signed r show ?thesis
      by (auto simp: abs_transfer_def Let_def set_bal_def split: if_splits option.splits)
  next
    case (Destroy aid)
    with d Signed r show ?thesis
      by (auto simp: abs_destroy_def Let_def set_bal_def split: if_splits)
  qed
qed (use d r in \<open>cases c; auto\<close>)+

lemma view_of_abs: "view_of s = (abal (abs_of s), asupply (abs_of s))"
  by (simp add: view_of_def abs_of_def)

lemma dispatch_replay:
  fixes s :: "('acc, 'w::len word) chain"
  assumes inv: "ledger_inv s" and nw: "is_issue c \<Longrightarrow> NextAssetId s \<noteq> - 1"
    and r: "replay (alog (abs_of s)) = view_of s"
  shows "replay (alog (abs_of (fst (dispatch lk s origin c)))) = view_of (fst (dispatch lk s origin c))"
proof -
  have d: "abs_dispatch lk (abs_of s) origin (abs_call c)
             = Some (abs_of (fst (dispatch lk s origin c)), snd (dispatch lk s origin c))"
    using inv nw by (rule dispatch_abs_pair)
  from r have "replay (alog (abs_of s)) = (abal (abs_of s), asupply (abs_of s))"
    by (simp only: view_of_abs)
  from this d show ?thesis
    unfolding view_of_abs by (rule abs_dispatch_replay)
qed

lemma reachable_step_facts:
  fixes s :: "('acc, 'w::len word) chain"
  assumes "reachable lk n s" and "Suc n < 2 ^ 32"
  shows "ledger_inv s \<and> NextAssetId s \<noteq> - 1"
  using reachable_inv_next [OF assms(1)] assms(2) unat_max_asset_id by fastforce

subsection \<open>The log rebuilds the ledger\<close>

text \<open>
  C18: in every state reachable with fewer than \<open>2 ^ 32\<close> issue calls, replaying the
  deposited events from an empty ledger (an issue sets the new asset's holding and
  supply, a transfer debits then credits, a destroy lowers the holding and the supply
  by the amount it records) gives back every balance and every total supply that the
  module's getters read.
\<close>

theorem events_replay:
  fixes s :: "('acc, 'w::len word) chain"
  assumes "reachable lk n s" and "n < 2 ^ 32"
  shows "replay (map (map_event id unat) (Events s)) = view_of s"
proof -
  from assms have "replay (alog (abs_of s)) = view_of s"
  proof (induction rule: reachable.induct)
    case genesis
    show ?case
      by (simp add: genesis_def view_of_def balance_def total_supply_def storage_simps)
  next
    case (issue_step n s origin tot)
    with reachable_step_facts [OF issue_step.hyps(1)] show ?case
      by (intro dispatch_replay) simp_all
  next
    case (other_step n s c origin)
    with reachable_inv_next [OF other_step.hyps(1)] show ?case
      by (intro dispatch_replay) simp_all
  qed
  then show ?thesis
    by simp
qed

subsection \<open>Every event names an issued asset\<close>

lemma issued_of_balance:
  assumes "ledger_inv s" and "balance s aid c \<noteq> 0"
  shows "aid < NextAssetId s"
proof (rule ccontr)
  assume "\<not> aid < NextAssetId s"
  then have "NextAssetId s \<le> aid"
    by (simp add: not_less)
  with assms show False
    by (simp add: ledger_inv_def unissued_empty_def)
qed

lemma events_wf_snoc:
  "events_wf s \<Longrightarrow> NextAssetId s \<le> NextAssetId s' \<Longrightarrow> Events s' = Events s @ [e] \<Longrightarrow>
   event_asset e < NextAssetId s' \<Longrightarrow> events_wf s'"
  by (auto simp: events_wf_def list_all_iff)

lemma dispatch_events_wf:
  fixes s :: "('acc, 'w::len word) chain"
  assumes inv: "ledger_inv s" and nw: "is_issue c \<Longrightarrow> NextAssetId s \<noteq> - 1"
    and wf: "events_wf s"
  shows "events_wf (fst (dispatch lk s origin c))"
proof (cases c)
  case (Issue tot)
  have lt: "NextAssetId s < NextAssetId s + 1"
    using nw Issue by (simp add: word_less_nat_alt unat_succ_no_wrap)
  show ?thesis
  proof (cases origin)
    case (Signed who)
    have "events_wf (fst (issue s (Signed who) tot))"
      using lt by (intro events_wf_snoc [OF wf, where e = "Issued (NextAssetId s) who tot"])
        (simp_all add: issue_Signed less_imp_le)
    with Issue Signed show ?thesis
      by simp
  qed (simp_all add: Issue calls_unsigned wf)
next
  case (Transfer aid target amount)
  show ?thesis
  proof (cases rule: transfer_cases [of lk s origin aid target amount])
    case (rejected e)
    with Transfer wf show ?thesis
      by simp
  next
    case (accepted who tgt)
    have "balance s aid who \<noteq> 0"
      using accepted by (intro notI) simp
    then have "aid < NextAssetId s"
      using inv by (intro issued_of_balance)
    with accepted have "events_wf (fst (transfer lk s origin aid target amount))"
      by (intro events_wf_snoc [OF wf, where e = "Transferred aid who tgt amount"]) simp_all
    with Transfer show ?thesis
      by simp
  qed
next
  case (Destroy aid)
  show ?thesis
  proof (cases origin)
    case (Signed who)
    show ?thesis
    proof (cases "balance s aid who = 0")
      case True
      with Signed Destroy wf show ?thesis
        by (simp add: destroy_Signed events_wf_def)
    next
      case False
      with Signed Destroy show ?thesis
        using issued_of_balance [OF inv False]
        by (intro events_wf_snoc [OF wf, where e = "Destroyed aid who (balance s aid who)"])
          (simp_all add: destroy_Signed)
    qed
  qed (simp_all add: Destroy calls_unsigned wf)
qed

text \<open>
  C19: in every state reachable with fewer than \<open>2 ^ 32\<close> issue calls, every event
  in the log names an asset below \<open>NextAssetId\<close>, one that has been issued: no
  transfer or destroy of an asset that does not exist ever succeeds.
\<close>

theorem reachable_events_wf:
  fixes s :: "('acc, 'w::len word) chain"
  assumes "reachable lk n s" and "n < 2 ^ 32"
  shows "events_wf s"
  using assms
proof (induction rule: reachable.induct)
  case genesis
  show ?case
    by (simp add: genesis_def events_wf_def)
next
  case (issue_step n s origin tot)
  with reachable_step_facts [OF issue_step.hyps(1)] show ?case
    by (intro dispatch_events_wf) simp_all
next
  case (other_step n s c origin)
  with reachable_inv_next [OF other_step.hyps(1)] show ?case
    by (intro dispatch_events_wf) simp_all
qed

subsection \<open>No storage entry for an asset that was never issued\<close>

lemma storage_wf_mono:
  "storage_wf s \<Longrightarrow> NextAssetId s \<le> NextAssetId s' \<Longrightarrow>
   dom (Balances s') \<subseteq> dom (Balances s) \<union> {k. fst k < NextAssetId s'} \<Longrightarrow>
   dom (TotalSupply s') \<subseteq> dom (TotalSupply s) \<union> {aid. aid < NextAssetId s'} \<Longrightarrow> storage_wf s'"
proof -
  assume wf: "storage_wf s" and le: "NextAssetId s \<le> NextAssetId s'"
    and b: "dom (Balances s') \<subseteq> dom (Balances s) \<union> {k. fst k < NextAssetId s'}"
    and t: "dom (TotalSupply s') \<subseteq> dom (TotalSupply s) \<union> {aid. aid < NextAssetId s'}"
  have "dom (Balances s) \<subseteq> {k. fst k < NextAssetId s'}"
    and "dom (TotalSupply s) \<subseteq> {aid. aid < NextAssetId s'}"
    using wf le unfolding storage_wf_def by (blast intro: order_less_le_trans)+
  with b t show "storage_wf s'"
    unfolding storage_wf_def by blast
qed

lemma dispatch_storage_wf:
  fixes s :: "('acc, 'w::len word) chain"
  assumes inv: "ledger_inv s" and nw: "is_issue c \<Longrightarrow> NextAssetId s \<noteq> - 1"
    and wf: "storage_wf s"
  shows "storage_wf (fst (dispatch lk s origin c))"
proof (cases c)
  case (Issue tot)
  have lt: "NextAssetId s < NextAssetId s + 1"
    using nw Issue by (simp add: word_less_nat_alt unat_succ_no_wrap)
  show ?thesis
  proof (cases origin)
    case (Signed who)
    with Issue lt show ?thesis
      by (intro storage_wf_mono [OF wf]) (auto simp: issue_Signed)
  qed (simp_all add: Issue calls_unsigned wf)
next
  case (Transfer aid target amount)
  show ?thesis
  proof (cases rule: transfer_cases [of lk s origin aid target amount])
    case (rejected e)
    with Transfer wf show ?thesis
      by simp
  next
    case (accepted who tgt)
    have "balance s aid who \<noteq> 0"
      using accepted by (intro notI) simp
    then have "aid < NextAssetId s"
      using inv by (intro issued_of_balance)
    with accepted Transfer show ?thesis
      by (intro storage_wf_mono [OF wf]) auto
  qed
next
  case (Destroy aid)
  show ?thesis
  proof (cases origin)
    case (Signed who)
    show ?thesis
    proof (cases "balance s aid who = 0")
      case True
      with Signed Destroy show ?thesis
        by (intro storage_wf_mono [OF wf]) (auto simp: destroy_Signed)
    next
      case False
      with Signed Destroy show ?thesis
        using issued_of_balance [OF inv False]
        by (intro storage_wf_mono [OF wf]) (auto simp: destroy_Signed)
    qed
  qed (simp_all add: Destroy calls_unsigned wf)
qed

text \<open>
  C30: in every state reachable with fewer than \<open>2 ^ 32\<close> issue calls, the storage
  holds entries of \<open>Balances\<close> and \<open>TotalSupply\<close> only for assets below
  \<open>NextAssetId\<close>: no call, successful or rejected, leaves an entry for an asset that
  was never issued.
\<close>

theorem reachable_storage_wf:
  fixes s :: "('acc, 'w::len word) chain"
  assumes "reachable lk n s" and "n < 2 ^ 32"
  shows "storage_wf s"
  using assms
proof (induction rule: reachable.induct)
  case genesis
  show ?case
    by (simp add: genesis_def storage_wf_def)
next
  case (issue_step n s origin tot)
  with reachable_step_facts [OF issue_step.hyps(1)] show ?case
    by (intro dispatch_storage_wf) simp_all
next
  case (other_step n s c origin)
  with reachable_inv_next [OF other_step.hyps(1)] show ?case
    by (intro dispatch_storage_wf) simp_all
qed

end
