(* ===== verification/Token_Liveness.thy ===== *)
theory Token_Liveness
  imports Token_Refinement
begin

text \<open>
  What the holders can always do. The holders of an asset can always retire it: one
  signed \<open>destroy\<close> per holder, in any order, leaves every balance of the asset at
  zero and its total supply at zero. A successful transfer can always be undone: the
  receiver can send the same amount back, and the balances and supplies are then
  those before the first transfer.
\<close>

subsection \<open>Destroying every holding of an asset\<close>

lemma run_destroys:
  fixes s :: "('acc, 'w::len word) chain" and lk :: "('src, 'acc) lookup"
  assumes "ledger_inv s"
  shows "ledger_inv (run lk s (map (\<lambda>c. (Signed c, Destroy aid :: ('src, 'w word) call)) xs))
    \<and> holders (Balances (run lk s (map (\<lambda>c. (Signed c, Destroy aid :: ('src, 'w word) call)) xs))) aid
        = holders (Balances s) aid - set xs"
  using assms
proof (induction xs arbitrary: s)
  case Nil
  then show ?case by simp
next
  case (Cons c xs)
  let ?t = "fst (destroy s (Signed c) aid)"
  have "Balances ?t = (Balances s)((aid, c) := None)"
    by (simp add: destroy_Signed)
  then have "holders (Balances ?t) aid = holders (Balances s) aid - {c}"
    by (simp add: holders_delete)
  moreover have "ledger_inv ?t"
    using Cons.prems by (rule destroy_inv)
  ultimately show ?case
    using Cons.IH [of ?t] by (auto simp: Diff_insert2 [symmetric])
qed

text \<open>
  C20: from any state satisfying the ledger invariant, a block with one signed
  \<open>destroy\<close> of an asset for each of its holders (each account with a stored entry)
  ends with every balance of the asset at zero and its total supply at zero: the
  holders can always retire an asset completely.
\<close>

theorem destroy_all_retires_supply:
  fixes s :: "('acc, 'w::len word) chain" and lk :: "('src, 'acc) lookup"
  assumes inv: "ledger_inv s" and hs: "holders (Balances s) aid \<subseteq> set xs"
  shows "total_supply (run lk s (map (\<lambda>c. (Signed c, Destroy aid :: ('src, 'w word) call)) xs)) aid = 0
    \<and> (\<forall>c. balance (run lk s (map (\<lambda>c. (Signed c, Destroy aid :: ('src, 'w word) call)) xs)) aid c = 0)"
proof -
  let ?t = "run lk s (map (\<lambda>c. (Signed c, Destroy aid :: ('src, 'w word) call)) xs)"
  have invt: "ledger_inv ?t" and none: "holders (Balances ?t) aid = {}"
    using run_destroys [OF inv, of lk aid xs] hs by auto
  have zero: "balance ?t aid c = 0" for c
    using none by (simp add: holders_def balance_def storage_get_absent)
  then have "holdings ?t aid = 0"
    by (simp add: holdings_zero)
  with invt have "unat (total_supply ?t aid) = 0"
    by (simp add: ledger_inv_def conserved_def)
  with zero show ?thesis
    by (simp add: unat_eq_zero)
qed

subsection \<open>Sending a transfer back\<close>

lemma abs_transfer_back:
  assumes "abs_transfer A who aid tgt amount = (A1, Inr ())"
  shows "\<exists>A2. abs_transfer A1 tgt aid who amount = (A2, Inr ())
    \<and> abal A2 = abal A \<and> asupply A2 = asupply A"
  using assms
  by (auto simp: abs_transfer_def Let_def set_bal_def fun_eq_iff split: if_splits)

text \<open>
  C21: from a state satisfying the ledger invariant, after a successful transfer of
  \<open>amount\<close> of an asset from \<open>who\<close> to the account \<open>tgt\<close> that \<open>target\<close>
  resolves to, a transfer of the same amount back from \<open>tgt\<close> to \<open>who\<close> (named by
  any source that resolves to \<open>who\<close>) succeeds, and restores every balance and every
  total supply.
\<close>

theorem transfer_back_roundtrip:
  fixes s :: "('acc, 'w::len word) chain"
  assumes inv: "ledger_inv s" and t1: "transfer lk s (Signed who) aid target amount = (s1, Inr ())"
    and tgt: "lk target = Some tgt" and ret: "lk source = Some who"
  shows "\<exists>s2. transfer lk s1 (Signed tgt) aid source amount = (s2, Inr ())
    \<and> balance s2 = balance s \<and> total_supply s2 = total_supply s"
proof -
  have "abs_transfer (abs_of s) who aid tgt (unat amount) = map_prod abs_of id (transfer lk s (Signed who) aid target amount)"
    using inv tgt by (rule transfer_abs_step [symmetric])
  with t1 have "abs_transfer (abs_of s) who aid tgt (unat amount) = (abs_of s1, Inr ())"
    by simp
  from abs_transfer_back [OF this] obtain A2 where A2: "abs_transfer (abs_of s1) tgt aid who (unat amount) = (A2, Inr ())"
    and bal: "abal A2 = abal (abs_of s)" and sup: "asupply A2 = asupply (abs_of s)"
    by blast
  have inv1: "ledger_inv s1"
    using transfer_inv [OF inv, of lk "Signed who" aid target amount] t1 by simp
  obtain s2 r where t2: "transfer lk s1 (Signed tgt) aid source amount = (s2, r)"
    by fastforce
  have "map_prod abs_of id (transfer lk s1 (Signed tgt) aid source amount) = abs_transfer (abs_of s1) tgt aid who (unat amount)"
    using inv1 ret by (rule transfer_abs_step)
  with A2 t2 have e2: "abs_of s2 = A2" and "r = Inr ()"
    by simp_all
  from bal have "abal (abs_of s2) = abal (abs_of s)"
    by (simp only: e2)
  then have "balance s2 = balance s"
    by (intro balance_eqI) (simp add: fun_eq_iff)
  moreover from sup have "asupply (abs_of s2) = asupply (abs_of s)"
    by (simp only: e2)
  then have "total_supply s2 = total_supply s"
    by (intro total_supply_eqI) (simp add: fun_eq_iff)
  ultimately show ?thesis
    using t2 \<open>r = Inr ()\<close> by blast
qed

end
