(* ===== verification/Token_Ordering.thy ===== *)
theory Token_Ordering
  imports Token_Refinement "HOL-Library.Multiset"
begin

text \<open>
  Ordering of calls within a block. A \<open>transfer\<close> or a \<open>destroy\<close> works on the
  one asset it names (\<open>ledger_asset\<close>); on the abstract ledger two such calls on
  different assets commute, case by case of their kinds, and through the refinement
  of \<open>Token_Refinement\<close> so do the module's calls: the order in which a block
  places calls on different assets changes only the order of their events. An issue
  commutes with a call on an asset already issued; two issues do not commute, since
  they exchange the ids they allocate. \<open>commute_from_abs\<close> carries a commutation of
  the abstract ledger to the module.
\<close>

fun ledger_asset :: "('src, 'bal) call \<Rightarrow> asset_id option" where
  "ledger_asset (Issue _) = None"
| "ledger_asset (Transfer aid _ _) = Some aid"
| "ledger_asset (Destroy aid) = Some aid"

definition swap_ids :: "asset_id \<Rightarrow> asset_id \<Rightarrow> asset_id \<Rightarrow> asset_id" where
  "swap_ids a b x = (if x = a then b else if x = b then a else x)"

lemma ledger_asset_abs_call [simp]: "ledger_asset (abs_call c) = ledger_asset c"
  by (cases c) simp_all

lemma abs_dispatch_local:
  assumes "ledger_asset c = Some a" and "abs_dispatch lk A origin c = Some (A', r)"
  shows "(\<forall>a'. a' \<noteq> a \<longrightarrow> abal A' a' = abal A a' \<and> asupply A' a' = asupply A a')
    \<and> anext A' = anext A \<and> (\<exists>es. alog A' = alog A @ es)"
  using assms
  by (cases c; cases origin)
    (auto simp: abs_transfer_def abs_destroy_def Let_def set_bal_def split: option.splits if_splits)

text \<open>
  Two signed calls on different assets commute on the abstract ledger: each finds
  the same balances of its own asset whichever runs first, so each returns the same
  result, and the ledgers reached differ only in the order of the two events.
\<close>

lemma abs_commute_Transfer_Transfer:
  assumes "a1 \<noteq> a2"
    and "abs_dispatch lk A (Signed w1) (Transfer a1 t1 x1) = Some (A1, r1)"
    and "abs_dispatch lk A1 (Signed w2) (Transfer a2 t2 x2) = Some (A12, r2)"
  shows "\<exists>A2 A21. abs_dispatch lk A (Signed w2) (Transfer a2 t2 x2) = Some (A2, r2)
    \<and> abs_dispatch lk A2 (Signed w1) (Transfer a1 t1 x1) = Some (A21, r1)
    \<and> abal A21 = abal A12 \<and> asupply A21 = asupply A12 \<and> anext A21 = anext A12
    \<and> mset (alog A21) = mset (alog A12)"
  using assms
  by (auto simp: abs_transfer_def Let_def set_bal_def fun_eq_iff split: option.splits if_splits)

lemma abs_commute_Transfer_Destroy:
  assumes "a1 \<noteq> a2"
    and "abs_dispatch lk A (Signed w1) (Transfer a1 t1 x1) = Some (A1, r1)"
    and "abs_dispatch lk A1 (Signed w2) (Destroy a2) = Some (A12, r2)"
  shows "\<exists>A2 A21. abs_dispatch lk A (Signed w2) (Destroy a2) = Some (A2, r2)
    \<and> abs_dispatch lk A2 (Signed w1) (Transfer a1 t1 x1) = Some (A21, r1)
    \<and> abal A21 = abal A12 \<and> asupply A21 = asupply A12 \<and> anext A21 = anext A12
    \<and> mset (alog A21) = mset (alog A12)"
  using assms
  by (auto simp: abs_transfer_def abs_destroy_def Let_def set_bal_def fun_eq_iff split: option.splits if_splits)

lemma abs_commute_Destroy_Transfer:
  assumes "a1 \<noteq> a2"
    and "abs_dispatch lk A (Signed w1) (Destroy a1) = Some (A1, r1)"
    and "abs_dispatch lk A1 (Signed w2) (Transfer a2 t2 x2) = Some (A12, r2)"
  shows "\<exists>A2 A21. abs_dispatch lk A (Signed w2) (Transfer a2 t2 x2) = Some (A2, r2)
    \<and> abs_dispatch lk A2 (Signed w1) (Destroy a1) = Some (A21, r1)
    \<and> abal A21 = abal A12 \<and> asupply A21 = asupply A12 \<and> anext A21 = anext A12
    \<and> mset (alog A21) = mset (alog A12)"
  using assms
  by (auto simp: abs_transfer_def abs_destroy_def Let_def set_bal_def fun_eq_iff split: option.splits if_splits)

lemma abs_commute_Destroy_Destroy:
  assumes "a1 \<noteq> a2"
    and "abs_dispatch lk A (Signed w1) (Destroy a1) = Some (A1, r1)"
    and "abs_dispatch lk A1 (Signed w2) (Destroy a2) = Some (A12, r2)"
  shows "\<exists>A2 A21. abs_dispatch lk A (Signed w2) (Destroy a2) = Some (A2, r2)
    \<and> abs_dispatch lk A2 (Signed w1) (Destroy a1) = Some (A21, r1)
    \<and> abal A21 = abal A12 \<and> asupply A21 = asupply A12 \<and> anext A21 = anext A12
    \<and> mset (alog A21) = mset (alog A12)"
  using assms
  by (auto simp: abs_destroy_def Let_def set_bal_def fun_eq_iff split: if_splits)

text \<open>
  A signed issue and a signed call on an asset other than the one the issue
  allocates commute on the abstract ledger in the same sense.
\<close>

lemma abs_commute_Issue_Transfer:
  assumes "a \<noteq> of_nat (anext A)"
    and "abs_dispatch lk A (Signed w1) (Issue t) = Some (A1, r1)"
    and "abs_dispatch lk A1 (Signed w2) (Transfer a t2 x2) = Some (A12, r2)"
  shows "\<exists>A2 A21. abs_dispatch lk A (Signed w2) (Transfer a t2 x2) = Some (A2, r2)
    \<and> abs_dispatch lk A2 (Signed w1) (Issue t) = Some (A21, r1)
    \<and> abal A21 = abal A12 \<and> asupply A21 = asupply A12 \<and> anext A21 = anext A12
    \<and> mset (alog A21) = mset (alog A12)"
  using assms
  by (auto simp: abs_issue_def abs_transfer_def Let_def set_bal_def fun_eq_iff split: option.splits if_splits)

lemma abs_commute_Issue_Destroy:
  assumes "a \<noteq> of_nat (anext A)"
    and "abs_dispatch lk A (Signed w1) (Issue t) = Some (A1, r1)"
    and "abs_dispatch lk A1 (Signed w2) (Destroy a) = Some (A12, r2)"
  shows "\<exists>A2 A21. abs_dispatch lk A (Signed w2) (Destroy a) = Some (A2, r2)
    \<and> abs_dispatch lk A2 (Signed w1) (Issue t) = Some (A21, r1)
    \<and> abal A21 = abal A12 \<and> asupply A21 = asupply A12 \<and> anext A21 = anext A12
    \<and> mset (alog A21) = mset (alog A12)"
  using assms
  by (auto simp: abs_issue_def abs_destroy_def Let_def set_bal_def fun_eq_iff split: if_splits)

lemma abs_issue_commute:
  assumes "ledger_asset c = Some a" and "a \<noteq> of_nat (anext A)"
    and "abs_dispatch lk A o1 (Issue t) = Some (A1, r1)" and "abs_dispatch lk A1 o2 c = Some (A12, r2)"
  shows "\<exists>A2 A21. abs_dispatch lk A o2 c = Some (A2, r2) \<and> abs_dispatch lk A2 o1 (Issue t) = Some (A21, r1)
    \<and> abal A21 = abal A12 \<and> asupply A21 = asupply A12 \<and> anext A21 = anext A12
    \<and> mset (alog A21) = mset (alog A12)"
proof (cases "\<exists>w1 w2. o1 = Signed w1 \<and> o2 = Signed w2")
  case True
  then obtain w1 w2 where o: "o1 = Signed w1" "o2 = Signed w2"
    by blast
  show ?thesis
  proof (cases c)
    case (Transfer b t2 x2)
    with assms(1) have c: "c = Transfer a t2 x2"
      by simp
    show ?thesis
      using assms(2-4) unfolding c o by (rule abs_commute_Issue_Transfer)
  next
    case (Destroy b)
    with assms(1) have c: "c = Destroy a"
      by simp
    show ?thesis
      using assms(2-4) unfolding c o by (rule abs_commute_Issue_Destroy)
  qed (use assms(1) in simp)
next
  case False
  with assms(3,4) show ?thesis
    by (cases o1; cases o2; cases c) (auto simp: abs_issue_def Let_def split: if_splits)
qed

lemma abs_dispatch_commute:
  assumes "ledger_asset c1 = Some a1" and "ledger_asset c2 = Some a2" and "a1 \<noteq> a2"
    and "abs_dispatch lk A o1 c1 = Some (A1, r1)" and "abs_dispatch lk A1 o2 c2 = Some (A12, r2)"
  shows "\<exists>A2 A21. abs_dispatch lk A o2 c2 = Some (A2, r2) \<and> abs_dispatch lk A2 o1 c1 = Some (A21, r1)
    \<and> abal A21 = abal A12 \<and> asupply A21 = asupply A12 \<and> anext A21 = anext A12
    \<and> mset (alog A21) = mset (alog A12)"
proof (cases "\<exists>w1 w2. o1 = Signed w1 \<and> o2 = Signed w2")
  case True
  then obtain w1 w2 where o: "o1 = Signed w1" "o2 = Signed w2"
    by blast
  show ?thesis
  proof (cases c1)
    case (Transfer a t1 x1)
    with assms(1) have c1: "c1 = Transfer a1 t1 x1"
      by simp
    show ?thesis
    proof (cases c2)
      case (Transfer b t2 x2)
      with assms(2) have c2: "c2 = Transfer a2 t2 x2"
        by simp
      show ?thesis
        using assms(3-5) unfolding c1 c2 o by (rule abs_commute_Transfer_Transfer)
    next
      case (Destroy b)
      with assms(2) have c2: "c2 = Destroy a2"
        by simp
      show ?thesis
        using assms(3-5) unfolding c1 c2 o by (rule abs_commute_Transfer_Destroy)
    qed (use assms(2) in simp)
  next
    case (Destroy a)
    with assms(1) have c1: "c1 = Destroy a1"
      by simp
    show ?thesis
    proof (cases c2)
      case (Transfer b t2 x2)
      with assms(2) have c2: "c2 = Transfer a2 t2 x2"
        by simp
      show ?thesis
        using assms(3-5) unfolding c1 c2 o by (rule abs_commute_Destroy_Transfer)
    next
      case (Destroy b)
      with assms(2) have c2: "c2 = Destroy a2"
        by simp
      show ?thesis
        using assms(3-5) unfolding c1 c2 o by (rule abs_commute_Destroy_Destroy)
    qed (use assms(2) in simp)
  qed (use assms(1) in simp)
next
  case False
  with assms(4,5) show ?thesis
    by (cases o1; cases o2; cases c1; cases c2) auto
qed

lemma mset_map_inj:
  assumes "inj f" and "mset (map f xs) = mset (map f ys)"
  shows "mset xs = mset ys"
proof -
  have "image_mset (inv f) (image_mset f (mset xs)) = image_mset (inv f) (image_mset f (mset ys))"
    using assms(2) by simp
  with assms(1) show ?thesis
    by (simp add: multiset.map_comp inv_o_cancel)
qed

lemma ledger_asset_not_issue: "ledger_asset c = Some a \<Longrightarrow> \<not> is_issue c"
  by (cases c) simp_all

text \<open>
  Lifting a commutation of the abstract ledger to the module: if the abstract calls
  commute from \<open>abs_of s\<close>, and every call meets its refinement condition in both
  orders, then both orders of the module's calls give the same balances, supplies,
  \<open>NextAssetId\<close> and multiset of events, and each call the same result.
\<close>

lemma commute_from_abs:
  fixes s :: "('acc, 'w::len word) chain"
  assumes inv: "ledger_inv s"
    and nw1: "is_issue c1 \<Longrightarrow> NextAssetId s \<noteq> - 1"
    and nw1': "is_issue c1 \<Longrightarrow> NextAssetId (fst (dispatch lk s o2 c2)) \<noteq> - 1"
    and nw2: "is_issue c2 \<Longrightarrow> NextAssetId s \<noteq> - 1"
    and nw2': "is_issue c2 \<Longrightarrow> NextAssetId (fst (dispatch lk s o1 c1)) \<noteq> - 1"
    and com: "\<And>A1 A12 r1 r2. abs_dispatch lk (abs_of s) o1 (abs_call c1) = Some (A1, r1) \<Longrightarrow>
        abs_dispatch lk A1 o2 (abs_call c2) = Some (A12, r2) \<Longrightarrow>
        \<exists>A2 A21. abs_dispatch lk (abs_of s) o2 (abs_call c2) = Some (A2, r2)
          \<and> abs_dispatch lk A2 o1 (abs_call c1) = Some (A21, r1)
          \<and> abal A21 = abal A12 \<and> asupply A21 = asupply A12 \<and> anext A21 = anext A12
          \<and> mset (alog A21) = mset (alog A12)"
  shows "balance (run lk s [(o2, c2), (o1, c1)]) = balance (run lk s [(o1, c1), (o2, c2)])
    \<and> total_supply (run lk s [(o2, c2), (o1, c1)]) = total_supply (run lk s [(o1, c1), (o2, c2)])
    \<and> NextAssetId (run lk s [(o2, c2), (o1, c1)]) = NextAssetId (run lk s [(o1, c1), (o2, c2)])
    \<and> mset (Events (run lk s [(o2, c2), (o1, c1)])) = mset (Events (run lk s [(o1, c1), (o2, c2)]))
    \<and> snd (dispatch lk (fst (dispatch lk s o2 c2)) o1 c1) = snd (dispatch lk s o1 c1)
    \<and> snd (dispatch lk (fst (dispatch lk s o1 c1)) o2 c2) = snd (dispatch lk s o2 c2)"
proof -
  let ?s1 = "fst (dispatch lk s o1 c1)" and ?s2 = "fst (dispatch lk s o2 c2)"
  let ?s12 = "fst (dispatch lk ?s1 o2 c2)" and ?s21 = "fst (dispatch lk ?s2 o1 c1)"
  have inv1: "ledger_inv ?s1"
    using inv nw1 by (rule dispatch_inv)
  have inv2: "ledger_inv ?s2"
    using inv nw2 by (rule dispatch_inv)
  have d1: "abs_dispatch lk (abs_of s) o1 (abs_call c1) = Some (abs_of ?s1, snd (dispatch lk s o1 c1))"
    using inv nw1 by (rule dispatch_abs_pair)
  have d12: "abs_dispatch lk (abs_of ?s1) o2 (abs_call c2) = Some (abs_of ?s12, snd (dispatch lk ?s1 o2 c2))"
    using inv1 nw2' by (rule dispatch_abs_pair)
  have d2: "abs_dispatch lk (abs_of s) o2 (abs_call c2) = Some (abs_of ?s2, snd (dispatch lk s o2 c2))"
    using inv nw2 by (rule dispatch_abs_pair)
  have d21: "abs_dispatch lk (abs_of ?s2) o1 (abs_call c1) = Some (abs_of ?s21, snd (dispatch lk ?s2 o1 c1))"
    using inv2 nw1' by (rule dispatch_abs_pair)
  from com [OF d1 d12]
  obtain A2 A21 where c2: "abs_dispatch lk (abs_of s) o2 (abs_call c2) = Some (A2, snd (dispatch lk ?s1 o2 c2))"
    and c21: "abs_dispatch lk A2 o1 (abs_call c1) = Some (A21, snd (dispatch lk s o1 c1))"
    and eq: "abal A21 = abal (abs_of ?s12)" "asupply A21 = asupply (abs_of ?s12)"
      "anext A21 = anext (abs_of ?s12)" "mset (alog A21) = mset (alog (abs_of ?s12))"
    by blast
  from c2 d2 have A2: "A2 = abs_of ?s2" and r2: "snd (dispatch lk ?s1 o2 c2) = snd (dispatch lk s o2 c2)"
    by simp_all
  from c21 d21 A2 have A21: "A21 = abs_of ?s21" and r1: "snd (dispatch lk ?s2 o1 c1) = snd (dispatch lk s o1 c1)"
    by simp_all
  have "balance ?s21 = balance ?s12"
    using eq(1) unfolding A21 by (intro balance_eqI) (simp add: fun_eq_iff)
  moreover have "total_supply ?s21 = total_supply ?s12"
    using eq(2) unfolding A21 by (intro total_supply_eqI) (simp add: fun_eq_iff)
  moreover have "NextAssetId ?s21 = NextAssetId ?s12"
    using eq(3) unfolding A21 by (simp add: unsigned_word_eqI)
  moreover have "mset (Events ?s21) = mset (Events ?s12)"
  proof (rule mset_map_inj)
    show "inj (map_event id (unat :: 'w word \<Rightarrow> nat) :: ('acc, 'w word) event \<Rightarrow> _)"
      by (intro event.inj_map inj_on_id inj_unat)
    show "mset (map (map_event id unat) (Events ?s21)) = mset (map (map_event id unat) (Events ?s12))"
      using eq(4) unfolding A21 by simp
  qed
  ultimately show ?thesis
    using r1 r2 by simp
qed

text \<open>
  C22: from a state satisfying the ledger invariant, two calls on different assets
  (each a \<open>transfer\<close> or a \<open>destroy\<close>, from any origins) can be applied in either
  order: both orders end with the same balances, supplies and \<open>NextAssetId\<close>, and
  the same events up to their order, and each call returns the same result whether
  it runs first or second.
\<close>

theorem calls_on_different_assets_commute:
  fixes s :: "('acc, 'w::len word) chain"
  assumes inv: "ledger_inv s" and a1: "ledger_asset c1 = Some a1" and a2: "ledger_asset c2 = Some a2"
    and ne: "a1 \<noteq> a2"
  shows "balance (run lk s [(o2, c2), (o1, c1)]) = balance (run lk s [(o1, c1), (o2, c2)])
    \<and> total_supply (run lk s [(o2, c2), (o1, c1)]) = total_supply (run lk s [(o1, c1), (o2, c2)])
    \<and> NextAssetId (run lk s [(o2, c2), (o1, c1)]) = NextAssetId (run lk s [(o1, c1), (o2, c2)])
    \<and> mset (Events (run lk s [(o2, c2), (o1, c1)])) = mset (Events (run lk s [(o1, c1), (o2, c2)]))
    \<and> snd (dispatch lk (fst (dispatch lk s o2 c2)) o1 c1) = snd (dispatch lk s o1 c1)
    \<and> snd (dispatch lk (fst (dispatch lk s o1 c1)) o2 c2) = snd (dispatch lk s o2 c2)"
proof (rule commute_from_abs [OF inv])
  fix A1 A12 r1 r2
  assume "abs_dispatch lk (abs_of s) o1 (abs_call c1) = Some (A1, r1)"
    and "abs_dispatch lk A1 o2 (abs_call c2) = Some (A12, r2)"
  with a1 a2 ne show "\<exists>A2 A21. abs_dispatch lk (abs_of s) o2 (abs_call c2) = Some (A2, r2)
      \<and> abs_dispatch lk A2 o1 (abs_call c1) = Some (A21, r1)
      \<and> abal A21 = abal A12 \<and> asupply A21 = asupply A12 \<and> anext A21 = anext A12
      \<and> mset (alog A21) = mset (alog A12)"
    by (intro abs_dispatch_commute [of "abs_call c1" a1 "abs_call c2" a2]) simp_all
qed (use a1 a2 ledger_asset_not_issue in blast)+

text \<open>
  C25: from a state satisfying the ledger invariant in which \<open>NextAssetId\<close> is not
  the largest id, an \<open>issue\<close> and a \<open>transfer\<close> or \<open>destroy\<close> of an asset already
  issued (below \<open>NextAssetId\<close>), from any origins, can be applied in either order:
  the issue allocates the same id, both orders end with the same balances, supplies,
  \<open>NextAssetId\<close> and events up to their order, and each call returns the same result.
\<close>

theorem issue_commutes_with_issued_asset_calls:
  fixes s :: "('acc, 'w::len word) chain"
  assumes inv: "ledger_inv s" and nw: "NextAssetId s \<noteq> - 1"
    and a: "ledger_asset c = Some a" and lt: "a < NextAssetId s"
  shows "balance (run lk s [(o2, c), (o1, Issue t)]) = balance (run lk s [(o1, Issue t), (o2, c)])
    \<and> total_supply (run lk s [(o2, c), (o1, Issue t)]) = total_supply (run lk s [(o1, Issue t), (o2, c)])
    \<and> NextAssetId (run lk s [(o2, c), (o1, Issue t)]) = NextAssetId (run lk s [(o1, Issue t), (o2, c)])
    \<and> mset (Events (run lk s [(o2, c), (o1, Issue t)])) = mset (Events (run lk s [(o1, Issue t), (o2, c)]))
    \<and> snd (dispatch lk (fst (dispatch lk s o2 c)) o1 (Issue t)) = snd (dispatch lk s o1 (Issue t))
    \<and> snd (dispatch lk (fst (dispatch lk s o1 (Issue t))) o2 c) = snd (dispatch lk s o2 c)"
proof (rule commute_from_abs [OF inv])
  have ni: "\<not> is_issue c"
    using a by (rule ledger_asset_not_issue)
  show "NextAssetId s \<noteq> - 1"
    by (rule nw)
  show "NextAssetId (fst (dispatch lk s o2 c)) \<noteq> - 1"
    using nw ni by (simp add: dispatch_NextAssetId)
  show "is_issue c \<Longrightarrow> NextAssetId s \<noteq> - 1" and "is_issue c \<Longrightarrow> NextAssetId (fst (dispatch lk s o1 (Issue t))) \<noteq> - 1"
    using ni by simp_all
next
  fix A1 A12 r1 r2
  assume h1: "abs_dispatch lk (abs_of s) o1 (abs_call (Issue t)) = Some (A1, r1)"
    and h2: "abs_dispatch lk A1 o2 (abs_call c) = Some (A12, r2)"
  have ne: "a \<noteq> of_nat (anext (abs_of s))"
    using lt by simp
  from h1 have "abs_dispatch lk (abs_of s) o1 (Issue (unat t)) = Some (A1, r1)"
    by simp
  from abs_issue_commute [of "abs_call c" a, OF _ ne this h2] a
  show "\<exists>A2 A21. abs_dispatch lk (abs_of s) o2 (abs_call c) = Some (A2, r2)
      \<and> abs_dispatch lk A2 o1 (abs_call (Issue t)) = Some (A21, r1)
      \<and> abal A21 = abal A12 \<and> asupply A21 = asupply A12 \<and> anext A21 = anext A12
      \<and> mset (alog A21) = mset (alog A12)"
    by simp
qed

subsection \<open>Two issues exchange their ids\<close>

lemma le_succ_asset_id: "n \<noteq> - 1 \<Longrightarrow> n \<le> (n :: asset_id) + 1"
  by (simp add: word_le_nat_alt unat_succ_no_wrap)

text \<open>
  C28: from a state satisfying the ledger invariant in which \<open>NextAssetId\<close> is not
  the largest id, two signed issues in the other order allocate the same two ids
  \<open>NextAssetId\<close> and \<open>NextAssetId + 1\<close> the other way round: the balances and
  supplies after one order are those after the other with the two ids exchanged, the
  counter ends at the same value, and each issuer's event names the other id.
\<close>

theorem issues_swap_ids:
  fixes s :: "('acc, 'w::len word) chain"
  assumes inv: "ledger_inv s" and nw: "NextAssetId s \<noteq> - 1"
  shows "balance (run lk s [(Signed w2, Issue t2), (Signed w1, Issue t1)])
      = balance (run lk s [(Signed w1, Issue t1), (Signed w2, Issue t2)]) \<circ> swap_ids (NextAssetId s) (NextAssetId s + 1)
    \<and> total_supply (run lk s [(Signed w2, Issue t2), (Signed w1, Issue t1)])
      = total_supply (run lk s [(Signed w1, Issue t1), (Signed w2, Issue t2)]) \<circ> swap_ids (NextAssetId s) (NextAssetId s + 1)
    \<and> NextAssetId (run lk s [(Signed w2, Issue t2), (Signed w1, Issue t1)])
      = NextAssetId (run lk s [(Signed w1, Issue t1), (Signed w2, Issue t2)])
    \<and> Events (run lk s [(Signed w2, Issue t2), (Signed w1, Issue t1)])
      = Events s @ [Issued (NextAssetId s) w2 t2, Issued (NextAssetId s + 1) w1 t1]
    \<and> Events (run lk s [(Signed w1, Issue t1), (Signed w2, Issue t2)])
      = Events s @ [Issued (NextAssetId s) w1 t1, Issued (NextAssetId s + 1) w2 t2]"
proof -
  let ?n = "NextAssetId s"
  have z0: "storage_get (Balances s) (?n, c) = 0" "storage_get (TotalSupply s) ?n = 0" for c
    using unissued_zero [OF inv order_refl, of c] by (simp_all add: balance_def total_supply_def)
  have z1: "storage_get (Balances s) (?n + 1, c) = 0" "storage_get (TotalSupply s) (?n + 1) = 0" for c
    using unissued_zero [OF inv le_succ_asset_id [OF nw], of c] by (simp_all add: balance_def total_supply_def)
  have ne: "?n + 1 \<noteq> ?n"
    by simp
  show ?thesis
    using z0 z1 ne
    by (simp add: issue_Signed balance_def total_supply_def storage_simps swap_ids_def fun_eq_iff algebra_simps)
qed

end
