(* ===== verification/Token_Checked.thy ===== *)
theory Token_Checked
  imports Token_Dispatch
begin

text \<open>
  The calls under Rust's debug-build arithmetic. In a debug build the operators
  \<open>+\<close>, \<open>-\<close> and \<open>+=\<close> of \<open>src/runtime/src/token.rs\<close> panic on overflow instead of
  wrapping, and a panic in a dispatched call aborts the execution of the whole block.
  \<open>checked_add\<close> and \<open>checked_sub\<close> are those operators on \<open>'w word\<close> (\<open>None\<close> is the
  panic); \<open>issue_dbg\<close>, \<open>transfer_dbg\<close> and \<open>destroy_dbg\<close> are the three calls with
  their statements in the source's order and each arithmetic operation checked, a
  \<open>mutate\<close> whose closure panics writing nothing; \<open>run_dbg\<close> is a block, \<open>None\<close> as
  soon as a call panics. Within the id space, in states satisfying the ledger
  invariant, the debug build never panics and computes what the release build
  computes; the only panic is \<open>NextAssetId += 1\<close> at the largest id, exactly where
  the release build wraps.
\<close>

definition checked_add :: "'w::len word \<Rightarrow> 'w word \<Rightarrow> 'w word option" where
  "checked_add a b = (if unat a + unat b < 2 ^ LENGTH('w) then Some (a + b) else None)"

definition checked_sub :: "'w::len word \<Rightarrow> 'w word \<Rightarrow> 'w word option" where
  "checked_sub a b = (if b \<le> a then Some (a - b) else None)"

definition issue_dbg ::
  "('acc, 'w::len word) chain \<Rightarrow> 'acc origin \<Rightarrow> 'w word \<Rightarrow> ('acc, 'w word) outcome option" where
  "issue_dbg s origin tot =
     (case ensure_signed origin of
        Inl e \<Rightarrow> Some (s, Inl e)
      | Inr who \<Rightarrow>
          (let aid = NextAssetId s
           in case checked_add (NextAssetId s) 1 of
                None \<Rightarrow> None
              | Some n \<Rightarrow>
                  (let s1 = s\<lparr>NextAssetId := n\<rparr>;
                       s2 = s1\<lparr>Balances := storage_insert (Balances s1) (aid, who) tot\<rparr>;
                       s3 = s2\<lparr>TotalSupply := storage_insert (TotalSupply s2) aid tot\<rparr>
                   in Some (deposit_event s3 (Issued aid who tot), Inr ()))))"

definition transfer_dbg ::
  "('src, 'acc) lookup \<Rightarrow> ('acc, 'w::len word) chain \<Rightarrow> 'acc origin \<Rightarrow> asset_id \<Rightarrow> 'src \<Rightarrow>
   'w word \<Rightarrow> ('acc, 'w word) outcome option" where
  "transfer_dbg lk s origin aid target amount =
     (case ensure_signed origin of
        Inl e \<Rightarrow> Some (s, Inl e)
      | Inr who \<Rightarrow>
          (let origin_account = (aid, who);
               origin_balance = storage_get (Balances s) origin_account
           in case lk target of
                None \<Rightarrow> Some (s, Inl LookupError)
              | Some tgt \<Rightarrow>
                  if amount = 0 then Some (s, Inl ZeroAmount)
                  else if \<not> origin_balance \<ge> amount then Some (s, Inl InsufficientBalance)
                  else
                    (let s1 = deposit_event s (Transferred aid who tgt amount)
                     in case checked_sub origin_balance amount of
                          None \<Rightarrow> None
                        | Some ob \<Rightarrow>
                            (let s2 = s1\<lparr>Balances := storage_insert (Balances s1) origin_account ob\<rparr>
                             in case checked_add (storage_get (Balances s2) (aid, tgt)) amount of
                                  None \<Rightarrow> None
                                | Some tb \<Rightarrow>
                                    Some (s2\<lparr>Balances := storage_insert (Balances s2) (aid, tgt) tb\<rparr>,
                                          Inr ())))))"

definition destroy_dbg ::
  "('acc, 'w::len word) chain \<Rightarrow> 'acc origin \<Rightarrow> asset_id \<Rightarrow> ('acc, 'w word) outcome option" where
  "destroy_dbg s origin aid =
     (case ensure_signed origin of
        Inl e \<Rightarrow> Some (s, Inl e)
      | Inr who \<Rightarrow>
          (case storage_take (Balances s) (aid, who) of
             (bal, balances') \<Rightarrow>
               (let s1 = s\<lparr>Balances := balances'\<rparr>
                in if bal = 0 then Some (s1, Inl ZeroBalance)
                   else
                     (case checked_sub (storage_get (TotalSupply s1) aid) bal of
                        None \<Rightarrow> None
                      | Some t \<Rightarrow>
                          (let s2 = s1\<lparr>TotalSupply := storage_insert (TotalSupply s1) aid t\<rparr>
                           in Some (deposit_event s2 (Destroyed aid who bal), Inr ()))))))"

fun dispatch_dbg ::
  "('src, 'acc) lookup \<Rightarrow> ('acc, 'w::len word) chain \<Rightarrow> 'acc origin \<Rightarrow> ('src, 'w word) call \<Rightarrow>
   ('acc, 'w word) outcome option" where
  "dispatch_dbg lk s origin (Issue tot) = issue_dbg s origin tot"
| "dispatch_dbg lk s origin (Transfer aid target amount) = transfer_dbg lk s origin aid target amount"
| "dispatch_dbg lk s origin (Destroy aid) = destroy_dbg s origin aid"

fun run_dbg ::
  "('src, 'acc) lookup \<Rightarrow> ('acc, 'w::len word) chain \<Rightarrow> ('acc origin \<times> ('src, 'w word) call) list \<Rightarrow>
   ('acc, 'w word) chain option" where
  "run_dbg lk s [] = Some s"
| "run_dbg lk s ((origin, c) # cs) =
     (case dispatch_dbg lk s origin c of
        None \<Rightarrow> None
      | Some (s', _) \<Rightarrow> run_dbg lk s' cs)"

fun is_signed :: "'acc origin \<Rightarrow> bool" where
  "is_signed (Signed _) = True"
| "is_signed _ = False"

definition signed_issue_count :: "('acc origin \<times> ('src, 'bal) call) list \<Rightarrow> nat" where
  "signed_issue_count cs = length (filter (\<lambda>(origin, c). is_signed origin \<and> is_issue c) cs)"

subsection \<open>Checked arithmetic\<close>

lemma checked_add_Some: "unat a + unat b < 2 ^ LENGTH('w) \<Longrightarrow> checked_add a b = Some (a + b)"
  for a b :: "'w::len word"
  by (simp add: checked_add_def)

lemma checked_sub_Some: "b \<le> a \<Longrightarrow> checked_sub a b = Some (a - b)"
  by (simp add: checked_sub_def)

lemma checked_add_one_asset_id: "checked_add (n :: asset_id) 1 = (if n = - 1 then None else Some (n + 1))"
proof (cases "n = - 1")
  case True
  then show ?thesis
    by (simp add: checked_add_def unat_max_asset_id)
next
  case False
  then have "unat (n + 1) = unat n + 1"
    by (rule unat_succ_no_wrap)
  with unat_asset_id_lt [of "n + 1"] have "unat n + unat (1 :: asset_id) < 2 ^ LENGTH(32)"
    by simp
  with False show ?thesis
    by (simp add: checked_add_def)
qed

subsection \<open>Each call in a debug build\<close>

lemma issue_dbg_eq:
  "NextAssetId s \<noteq> - 1 \<Longrightarrow> issue_dbg s origin tot = Some (issue s origin tot)"
  by (cases origin) (simp_all add: issue_dbg_def issue_def checked_add_one_asset_id Let_def)

lemma transfer_dbg_eq:
  fixes s :: "('acc, 'w::len word) chain"
  assumes inv: "ledger_inv s"
  shows "transfer_dbg lk s origin aid target amount = Some (transfer lk s origin aid target amount)"
proof (cases origin)
  case (Signed who)
  show ?thesis
  proof (cases "lk target")
    case (Some tgt)
    let ?ob = "balance s aid who"
    show ?thesis
    proof (cases "amount \<noteq> 0 \<and> amount \<le> ?ob")
      case True
      have sub: "checked_sub ?ob amount = Some (?ob - amount)"
        using True by (simp add: checked_sub_Some)
      have "unat (if tgt = who then ?ob - amount else balance s aid tgt) + unat amount < 2 ^ LENGTH('w)"
      proof (cases "tgt = who")
        case True
        have "unat (?ob - amount) + unat amount = unat ?ob"
          using \<open>amount \<noteq> 0 \<and> amount \<le> ?ob\<close> unat_sub_no_wrap [of amount ?ob] by (simp add: word_le_nat_alt)
        with True show ?thesis
          by (simp add: unsigned_less)
      next
        case False
        then show ?thesis
          using inv_pair_no_wrap [OF inv False, of aid] \<open>amount \<noteq> 0 \<and> amount \<le> ?ob\<close>
          by (simp add: word_le_nat_alt)
      qed
      then have "checked_add (storage_get ((Balances s)((aid, who) \<mapsto> ?ob - amount)) (aid, tgt)) amount
                 = Some (storage_get ((Balances s)((aid, who) \<mapsto> ?ob - amount)) (aid, tgt) + amount)"
        by (intro checked_add_Some) (auto simp: storage_simps balance_def split: if_splits)
      with Signed Some True sub show ?thesis
        by (simp add: transfer_dbg_def transfer_def Let_def storage_prims deposit_event_def balance_def)
    next
      case False
      with Signed Some show ?thesis
        by (auto simp: transfer_dbg_def transfer_def Let_def balance_def)
    qed
  qed (simp add: Signed transfer_dbg_def transfer_def)
qed (simp_all add: transfer_dbg_def transfer_def)

lemma destroy_dbg_eq:
  fixes s :: "('acc, 'w::len word) chain"
  assumes inv: "ledger_inv s"
  shows "destroy_dbg s origin aid = Some (destroy s origin aid)"
proof (cases origin)
  case (Signed who)
  have "unat (balance s aid who) \<le> unat (total_supply s aid)"
    using inv holdings_one_le [of s aid who] by (simp add: ledger_inv_def conserved_def)
  then have "checked_sub (total_supply s aid) (balance s aid who) = Some (total_supply s aid - balance s aid who)"
    by (simp add: checked_sub_Some word_le_nat_alt)
  with Signed show ?thesis
    by (simp add: destroy_dbg_def destroy_def Let_def storage_prims balance_def total_supply_def)
qed (simp_all add: destroy_dbg_def destroy_def)

lemma dispatch_dbg_eq:
  fixes s :: "('acc, 'w::len word) chain"
  assumes "ledger_inv s" and "is_issue c \<Longrightarrow> NextAssetId s \<noteq> - 1"
  shows "dispatch_dbg lk s origin c = Some (dispatch lk s origin c)"
  using assms by (cases c) (simp_all add: issue_dbg_eq transfer_dbg_eq destroy_dbg_eq)

subsection \<open>Blocks in a debug build\<close>

text \<open>
  C23: from a state satisfying the ledger invariant, a block whose issue calls fit in
  the ids left never panics in a debug build, and ends in the state the release build
  reaches: the unchecked arithmetic of the module never overflows there, so both
  builds agree.
\<close>

theorem run_dbg_agrees:
  fixes s :: "('acc, 'w::len word) chain"
  assumes "ledger_inv s" and "unat (NextAssetId s) + issue_count cs < 2 ^ 32"
  shows "run_dbg lk s cs = Some (run lk s cs)"
  using assms
proof (induction cs arbitrary: s)
  case Nil
  then show ?case by simp
next
  case (Cons x cs)
  obtain origin c where x: "x = (origin, c)"
    by (cases x)
  from bounded_cons [of s origin c cs lk] Cons.prems x
  have nw: "is_issue c \<Longrightarrow> NextAssetId s \<noteq> - 1"
    and inv': "ledger_inv (fst (dispatch lk s origin c))"
    and b': "unat (NextAssetId (fst (dispatch lk s origin c))) + issue_count cs < 2 ^ 32"
    by simp_all
  from inv' b' have "run_dbg lk (fst (dispatch lk s origin c)) cs = Some (run lk (fst (dispatch lk s origin c)) cs)"
    by (rule Cons.IH)
  with dispatch_dbg_eq [of s c lk origin, OF Cons.prems(1) nw] x show ?case
    by (cases "dispatch lk s origin c") simp
qed

text \<open>
  In a debug build \<open>issue\<close> panics exactly when it is signed and
  \<open>NextAssetId\<close> holds the largest 32-bit id.
\<close>

lemma issue_dbg_panics_iff:
  "issue_dbg s origin tot = None \<longleftrightarrow> (\<exists>who. origin = Signed who) \<and> NextAssetId s = - 1"
  by (cases origin) (simp_all add: issue_dbg_def checked_add_one_asset_id Let_def)

text \<open>
  C24: in a debug build, a block of \<open>k\<close> signed issues panics exactly when
  \<open>NextAssetId + k\<close> reaches \<open>2 ^ 32\<close>. The overflow that the release build wraps
  (and that lets a later issue reuse asset 0) is a panic there, and it already
  happens on the issue that would allocate the largest id.
\<close>

theorem run_dbg_issues_panic_iff:
  "run_dbg lk s (replicate k (Signed who, Issue tot)) = None \<longleftrightarrow> 2 ^ 32 \<le> unat (NextAssetId s) + k"
proof (induction k arbitrary: s)
  case 0
  show ?case
    using unat_asset_id_lt [of "NextAssetId s"] by simp
next
  case (Suc k)
  show ?case
  proof (cases "NextAssetId s = - 1")
    case True
    then show ?thesis
      using issue_dbg_panics_iff [of s "Signed who" tot] by (simp add: unat_max_asset_id)
  next
    case False
    then have "issue_dbg s (Signed who) tot = Some (issue s (Signed who) tot)"
      by (rule issue_dbg_eq)
    moreover have "unat (NextAssetId (fst (issue s (Signed who) tot))) = unat (NextAssetId s) + 1"
      using False by (simp add: issue_Signed unat_succ_no_wrap)
    ultimately show ?thesis
      using Suc.IH [of "fst (issue s (Signed who) tot)"] by (cases "issue s (Signed who) tot") simp
  qed
qed

lemma signed_issue_count_simps [simp]:
  "signed_issue_count [] = 0"
  "signed_issue_count ((origin, c) # cs) =
     (if is_signed origin \<and> is_issue c then Suc (signed_issue_count cs) else signed_issue_count cs)"
  by (simp_all add: signed_issue_count_def)

text \<open>
  A call that is not a signed issue does not panic under the invariant, keeps it, and
  leaves \<open>NextAssetId\<close> alone.
\<close>

lemma dispatch_dbg_uncounted:
  fixes s :: "('acc, 'w::len word) chain"
  assumes inv: "ledger_inv s" and nc: "\<not> (is_signed origin \<and> is_issue c)"
  shows "dispatch_dbg lk s origin c = Some (dispatch lk s origin c)
    \<and> ledger_inv (fst (dispatch lk s origin c)) \<and> NextAssetId (fst (dispatch lk s origin c)) = NextAssetId s"
proof (cases "is_issue c")
  case True
  with nc obtain tot where "c = Issue tot" and "\<not> is_signed origin"
    by (cases c) simp_all
  with inv show ?thesis
    by (cases origin) (simp_all add: issue_dbg_def calls_unsigned)
next
  case False
  have "dispatch_dbg lk s origin c = Some (dispatch lk s origin c)"
    using inv False by (intro dispatch_dbg_eq) simp_all
  moreover have "ledger_inv (fst (dispatch lk s origin c))"
    using inv False by (intro dispatch_inv) simp_all
  ultimately show ?thesis
    using False by (simp add: dispatch_NextAssetId)
qed

text \<open>
  One call of a debug block under the invariant: it panics exactly when it is a signed
  issue at the largest id; otherwise it computes what the release build computes,
  keeps the invariant, and advances \<open>NextAssetId\<close> by one if it is a signed issue.
\<close>

lemma dispatch_dbg_step:
  fixes s :: "('acc, 'w::len word) chain"
  assumes inv: "ledger_inv s"
  shows "(dispatch_dbg lk s origin c = None \<longleftrightarrow> is_signed origin \<and> is_issue c \<and> NextAssetId s = - 1)
    \<and> (dispatch_dbg lk s origin c \<noteq> None \<longrightarrow> dispatch_dbg lk s origin c = Some (dispatch lk s origin c)
        \<and> ledger_inv (fst (dispatch lk s origin c))
        \<and> unat (NextAssetId (fst (dispatch lk s origin c)))
            = unat (NextAssetId s) + (if is_signed origin \<and> is_issue c then 1 else 0))"
proof (cases "is_signed origin \<and> is_issue c")
  case True
  then obtain who tot where oc: "origin = Signed who" "c = Issue tot"
    by (cases origin; cases c) simp_all
  show ?thesis
  proof (cases "NextAssetId s = - 1")
    case True
    with oc show ?thesis
      using issue_dbg_panics_iff [of s origin tot] by simp
  next
    case False
    have "issue_dbg s origin tot = Some (issue s origin tot)"
      using False by (rule issue_dbg_eq)
    moreover have "ledger_inv (fst (issue s origin tot))"
      using inv False by (rule issue_inv)
    moreover have "unat (NextAssetId (fst (issue s origin tot))) = unat (NextAssetId s) + 1"
      using False oc by (simp add: issue_Signed unat_succ_no_wrap)
    ultimately show ?thesis
      using False oc by simp
  qed
next
  case False
  with dispatch_dbg_uncounted [OF inv False, of lk] show ?thesis
    by auto
qed

text \<open>
  C29: from a state satisfying the ledger invariant, a block of any calls panics in a
  debug build exactly when its signed issue calls reach the end of the id space:
  \<open>transfer\<close> and \<open>destroy\<close> never panic there, an unsigned issue is rejected
  before any arithmetic, and each signed issue advances \<open>NextAssetId\<close> by one until
  the one at the largest id panics.
\<close>

theorem run_dbg_panics_iff:
  fixes s :: "('acc, 'w::len word) chain"
  assumes "ledger_inv s"
  shows "run_dbg lk s cs = None \<longleftrightarrow> 2 ^ 32 \<le> unat (NextAssetId s) + signed_issue_count cs"
  using assms
proof (induction cs arbitrary: s)
  case Nil
  show ?case
    using unat_asset_id_lt [of "NextAssetId s"] by simp
next
  case (Cons x cs)
  obtain origin c where x: "x = (origin, c)"
    by (cases x)
  note step = dispatch_dbg_step [OF Cons.prems, of lk origin c]
  show ?case
  proof (cases "dispatch_dbg lk s origin c")
    case None
    with step x show ?thesis
      by (simp add: unat_max_asset_id)
  next
    case (Some r)
    with step have d: "dispatch_dbg lk s origin c = Some (dispatch lk s origin c)"
      and inv': "ledger_inv (fst (dispatch lk s origin c))"
      and n: "unat (NextAssetId (fst (dispatch lk s origin c)))
              = unat (NextAssetId s) + (if is_signed origin \<and> is_issue c then 1 else 0)"
      by simp_all
    from inv' have "run_dbg lk (fst (dispatch lk s origin c)) cs = None
        \<longleftrightarrow> 2 ^ 32 \<le> unat (NextAssetId (fst (dispatch lk s origin c))) + signed_issue_count cs"
      by (rule Cons.IH)
    with d n x show ?thesis
      by (cases "dispatch lk s origin c") simp
  qed
qed

text \<open>
  C31: from a state satisfying the ledger invariant, a debug-build block that panics
  does so at a signed issue: the block splits into the calls before it, which run
  without a panic to the state the release build reaches, a signed issue that finds
  \<open>NextAssetId\<close> at the largest id, and the rest; the calls before it hold exactly
  the signed issues that fill the ids left.
\<close>

theorem run_dbg_panic_position:
  fixes s :: "('acc, 'w::len word) chain"
  assumes "ledger_inv s" and "run_dbg lk s cs = None"
  shows "\<exists>pre who tot post. cs = pre @ (Signed who, Issue tot) # post
    \<and> run_dbg lk s pre = Some (run lk s pre) \<and> NextAssetId (run lk s pre) = - 1
    \<and> signed_issue_count pre = 2 ^ 32 - 1 - unat (NextAssetId s)"
  using assms
proof (induction cs arbitrary: s)
  case Nil
  then show ?case by simp
next
  case (Cons x cs)
  obtain origin c where x: "x = (origin, c)"
    by (cases x)
  note step = dispatch_dbg_step [OF Cons.prems(1), of lk origin c]
  show ?case
  proof (cases "dispatch_dbg lk s origin c")
    case None
    with step obtain who tot where oc: "origin = Signed who" "c = Issue tot" and m: "NextAssetId s = - 1"
      by (cases origin; cases c) simp_all
    then have "x # cs = [] @ (Signed who, Issue tot) # cs \<and> run_dbg lk s [] = Some (run lk s [])
        \<and> NextAssetId (run lk s []) = - 1 \<and> signed_issue_count [] = 2 ^ 32 - 1 - unat (NextAssetId s)"
      using x by (simp add: unat_max_asset_id)
    then show ?thesis
      by blast
  next
    case (Some r)
    let ?s' = "fst (dispatch lk s origin c)"
    from Some step have d: "dispatch_dbg lk s origin c = Some (dispatch lk s origin c)"
      and inv': "ledger_inv ?s'"
      and n: "unat (NextAssetId ?s') = unat (NextAssetId s) + (if is_signed origin \<and> is_issue c then 1 else 0)"
      by simp_all
    have "run_dbg lk ?s' cs = None"
      using Cons.prems(2) x d by (cases "dispatch lk s origin c") simp
    with inv' obtain pre who tot post where cs: "cs = pre @ (Signed who, Issue tot) # post"
      and r: "run_dbg lk ?s' pre = Some (run lk ?s' pre)" and m: "NextAssetId (run lk ?s' pre) = - 1"
      and k: "signed_issue_count pre = 2 ^ 32 - 1 - unat (NextAssetId ?s')"
      using Cons.IH by blast
    have "unat (NextAssetId ?s') < 2 ^ 32"
      by (rule unat_asset_id_lt)
    with k n have "signed_issue_count (x # pre) = 2 ^ 32 - 1 - unat (NextAssetId s)"
      using x by (cases "is_signed origin \<and> is_issue c") simp_all
    moreover have "run_dbg lk s (x # pre) = Some (run lk s (x # pre))"
      using r x d by (cases "dispatch lk s origin c") simp
    ultimately have "x # cs = (x # pre) @ (Signed who, Issue tot) # post
        \<and> run_dbg lk s (x # pre) = Some (run lk s (x # pre)) \<and> NextAssetId (run lk s (x # pre)) = - 1
        \<and> signed_issue_count (x # pre) = 2 ^ 32 - 1 - unat (NextAssetId s)"
      using cs m x by simp
    then show ?thesis
      by blast
  qed
qed

end
