(* ===== verification/Token_Results.thy ===== *)
theory Token_Results
  imports Token_Refinement
begin

text \<open>
  The results a block returns. The executive collects one dispatch result per
  extrinsic (\<open>run_results\<close> in \<open>Token_Dispatch\<close>); \<open>abs_run_results\<close> collects the
  results of the abstract ledger's calls. Within the id space the two lists agree:
  the specification decides which call of a block succeeds and with which error each
  rejected call fails. \<open>accepted_calls\<close> keeps, along a run, the calls that succeed;
  running only those gives the same ledger and the same successful results, so every
  rejected call of a block can be removed at once.
\<close>

fun abs_run_results ::
  "('src, 'acc) lookup \<Rightarrow> 'acc abs_ledger \<Rightarrow> ('acc origin \<times> ('src, nat) call) list \<Rightarrow>
   (dispatch_error + unit) list option" where
  "abs_run_results lk A [] = Some []"
| "abs_run_results lk A ((origin, c) # cs) =
     (case abs_dispatch lk A origin c of
        None \<Rightarrow> None
      | Some (A', r) \<Rightarrow> map_option (Cons r) (abs_run_results lk A' cs))"

fun accepted_calls ::
  "('src, 'acc) lookup \<Rightarrow> ('acc, 'w::len word) chain \<Rightarrow> ('acc origin \<times> ('src, 'w word) call) list \<Rightarrow>
   ('acc origin \<times> ('src, 'w word) call) list" where
  "accepted_calls lk s [] = []"
| "accepted_calls lk s ((origin, c) # cs) =
     (if isl (snd (dispatch lk s origin c)) then [] else [(origin, c)])
     @ accepted_calls lk (fst (dispatch lk s origin c)) cs"

subsection \<open>The results of a block refine the abstract results\<close>

text \<open>
  C26: from a state satisfying the ledger invariant, a block whose issue calls fit in
  the ids left returns, call by call, the results of the abstract ledger's block: the
  same successes, and the same error for each rejected call.
\<close>

theorem run_results_refine:
  fixes s :: "('acc, 'w::len word) chain"
  assumes "ledger_inv s" and "unat (NextAssetId s) + issue_count cs < 2 ^ 32"
  shows "abs_run_results lk (abs_of s) (map (map_prod id abs_call) cs) = Some (run_results lk s cs)"
  using assms
proof (induction cs arbitrary: s)
  case Nil
  then show ?case by simp
next
  case (Cons x cs)
  obtain origin c where x: "x = (origin, c)"
    by (cases x)
  from bounded_cons [of s origin c cs lk] Cons.prems x
  have nw: "is_issue c \<Longrightarrow> NextAssetId s \<noteq> - 1"
    and inv': "ledger_inv (fst (dispatch lk s origin c))"
    and b': "unat (NextAssetId (fst (dispatch lk s origin c))) + issue_count cs < 2 ^ 32"
    by simp_all
  from inv' b' have "abs_run_results lk (abs_of (fst (dispatch lk s origin c))) (map (map_prod id abs_call) cs)
                  = Some (run_results lk (fst (dispatch lk s origin c)) cs)"
    by (rule Cons.IH)
  with dispatch_abs_pair [of s c lk origin, OF Cons.prems(1) nw] x show ?case
    by (simp add: id_def)
qed

subsection \<open>Removing the rejected calls of a block\<close>

lemma run_accepted_calls_gen:
  fixes s t :: "('acc, 'w::len word) chain"
  assumes "abs_of t = abs_of s"
  shows "abs_of (run lk t (accepted_calls lk s cs)) = abs_of (run lk s cs)
    \<and> run_results lk t (accepted_calls lk s cs) = filter (Not \<circ> isl) (run_results lk s cs)"
  using assms
proof (induction cs arbitrary: s t)
  case Nil
  then show ?case by simp
next
  case (Cons x cs)
  obtain origin c where x: "x = (origin, c)"
    by (cases x)
  let ?s' = "fst (dispatch lk s origin c)"
  show ?case
  proof (cases "isl (snd (dispatch lk s origin c))")
    case True
    then obtain e where "snd (dispatch lk s origin c) = Inl e"
      by (cases "snd (dispatch lk s origin c)") simp_all
    then have "abs_of ?s' = abs_of s"
      by (rule dispatch_rejected_abs)
    with Cons.prems have "abs_of t = abs_of ?s'"
      by simp
    then have "abs_of (run lk t (accepted_calls lk ?s' cs)) = abs_of (run lk ?s' cs)
      \<and> run_results lk t (accepted_calls lk ?s' cs) = filter (Not \<circ> isl) (run_results lk ?s' cs)"
      by (rule Cons.IH)
    with x True show ?thesis
      by (simp add: comp_def)
  next
    case False
    let ?t' = "fst (dispatch lk t origin c)"
    have "map_prod abs_of id (dispatch lk t origin c) = map_prod abs_of id (dispatch lk s origin c)"
      using Cons.prems by (rule dispatch_abs_cong)
    then have t': "abs_of ?t' = abs_of ?s'" and r: "snd (dispatch lk t origin c) = snd (dispatch lk s origin c)"
      by (simp_all add: map_prod_def split_beta)
    from t' have "abs_of (run lk ?t' (accepted_calls lk ?s' cs)) = abs_of (run lk ?s' cs)
      \<and> run_results lk ?t' (accepted_calls lk ?s' cs) = filter (Not \<circ> isl) (run_results lk ?s' cs)"
      by (rule Cons.IH)
    with x False r show ?thesis
      by (simp add: comp_def)
  qed
qed

text \<open>
  C27: running only the calls of a block that succeed (\<open>accepted_calls\<close>, taken along
  the block's own run) ends in a ledger that the getters, the counter and the event log
  cannot tell from the end of the whole block, and returns exactly the block's
  successful results: every call kept still succeeds, and the rejected calls,
  whose leftover writes are not rolled back, can all be removed at once.
\<close>

theorem run_accepted_calls:
  fixes s :: "('acc, 'w::len word) chain"
  shows "abs_of (run lk s (accepted_calls lk s cs)) = abs_of (run lk s cs)
    \<and> run_results lk s (accepted_calls lk s cs) = filter (Not \<circ> isl) (run_results lk s cs)"
  by (rule run_accepted_calls_gen) (rule refl)

end
