(* ===== verification/Spec2Isabelle.thy ===== *)
theory Spec2Isabelle
  imports Token_Safety Token_Log Token_Liveness Token_Ordering Token_Checked Token_Results
begin

text \<open>
  \<^bold>\<open>A verified model of the token module of substrate-erc20.\<close>

  The repository's logic is one Substrate runtime module, \<open>src/runtime/src/token.rs\<close>:
  a ledger of fungible assets in which any signed account can issue a new asset class
  (\<open>issue\<close>), move units of a class to another account (\<open>transfer\<close>) and destroy
  its whole holding of a class (\<open>destroy\<close>). Its parts and how they interact:
  \<^item> the storage declared by \<open>decl_storage!\<close>: the map \<open>Balances\<close> from
    \<open>(AssetId, AccountId)\<close> to a balance, the counter \<open>NextAssetId\<close> and the map
    \<open>TotalSupply\<close>; the getters \<open>balance\<close> and \<open>total_supply\<close> read it;
  \<^item> the three dispatchable calls of \<open>decl_module!\<close>, which check the origin with the
    system module's \<open>ensure_signed\<close>, resolve the target through \<open>T::Lookup\<close>,
    check their arguments with \<open>ensure!\<close>, write the storage and deposit an event;
  \<^item> the events of \<open>decl_event!\<close>, appended by the system module to the block's list;
  \<^item> the generated \<open>Call\<close> enum and its dispatch, through which the executive applies
    the extrinsics of a block one after the other.

  \<^bold>\<open>Theories and what they model.\<close>
  \<^item> \<open>Ledger_Prelude\<close>: the named collections \<open>storage_simps\<close> and \<open>op_defs\<close>,
    finite-sum lemmas, and the word lemmas that turn \<open>+\<close>, \<open>-\<close> and \<open>+ 1\<close> on
    \<open>'w word\<close> into arithmetic on \<open>nat\<close> when they do not wrap.
  \<^item> \<open>Token_Storage\<close>: \<open>asset_id\<close> (\<open>AssetId = u32\<close>, line 16) as \<open>32 word\<close>; a
    storage map as a partial function, with the value-query primitives
    \<open>storage_get\<close> (an absent key reads as zero), \<open>storage_insert\<close>,
    \<open>storage_take\<close> (read and remove) and \<open>storage_mutate\<close> (read, apply, insert);
    the record \<open>token_storage\<close> of the three storage items (lines 78-87); the getters
    \<open>balance\<close> and \<open>total_supply\<close> (lines 93-101); \<open>holders\<close> and
    \<open>holdings\<close>, the accounts with an entry for an asset and the sum of their balances
    as natural numbers, with how one write changes that sum.
  \<^item> \<open>Token_Events\<close>: the datatype \<open>event\<close> (lines 67-76), the record \<open>chain\<close> that
    adds the system's event list to the module's storage, \<open>genesis\<close> (all storage at
    its default) and \<open>deposit_event\<close> (line 21).
  \<^item> \<open>Runtime_System\<close>: origins, \<open>ensure_signed\<close>, the errors a call can return
    (\<open>dispatch_error\<close>, with \<open>error_message\<close> giving the source's strings) and the
    type of the account lookup, which is a parameter of \<open>transfer\<close>.
  \<^item> \<open>Token_Ops\<close>: \<open>issue\<close> (lines 22-35), \<open>transfer\<close> (lines 37-53) and
    \<open>destroy\<close> (lines 55-63), each a function from the chain state, the origin and
    the arguments to the state after the call and its result \<open>dispatch_error + unit\<close>,
    with the statements in the source's order. The balance type \<open>T::Balance\<close> is
    \<open>'w word\<close> for any width, whose \<open>+\<close> and \<open>-\<close> wrap as the Rust operators do in a
    release build; \<open>AccountId\<close> is any type \<open>'acc\<close>. Storage writes in this Substrate
    version are not rolled back when a call fails, so a failed call returns the state
    after the writes that preceded the failing check. The theory proves the behaviour
    of each call on every branch, errors included.
  \<^item> \<open>Token_Invariant\<close>: the ledger invariant \<open>ledger_inv\<close> (finitely many entries;
    \<open>conserved\<close>: every supply, read as a number, equals the sum of its holders'
    balances; \<open>unissued_empty\<close>: no balance of an asset at or above
    \<open>NextAssetId\<close>), its preservation by \<open>transfer\<close> and \<open>destroy\<close> always and by
    \<open>issue\<close> while \<open>NextAssetId\<close> is below its largest value, and the consequence
    that the unchecked arithmetic of \<open>transfer\<close> and \<open>destroy\<close> never wraps.
  \<^item> \<open>Token_Dispatch\<close>: the datatype \<open>call\<close> and \<open>dispatch\<close> (the code that
    \<open>decl_module!\<close> generates, lines 18-65), \<open>run\<close> (the executive: each call's
    resulting state is kept, whether it failed or not), and the inductive relation
    \<open>reachable lk n s\<close>: \<open>s\<close> is reached from \<open>genesis\<close> with \<open>n\<close> issue calls.
    Conservation holds in every state reachable with fewer than \<open>2 ^ 32\<close> issues, and
    fails in a state reachable with \<open>2 ^ 32 + 1\<close> issues. The same theory shows
    that below that bound the \<open>Issued\<close> events carry the ids \<open>0, 1, 2, \<dots>\<close> in
    order, that a block appends one event per successful call and none per rejected
    one (\<open>run_results\<close> lists the results the executive collects), and that a call
    touches the balances and supply of one asset only.
    \<open>run_bounded_induct\<close> is the induction principle for blocks whose issue calls
    fit in the ids left: each call of such a block starts in a state satisfying the
    invariant, with no wrap of \<open>NextAssetId\<close> ahead of it.
  \<^item> \<open>Token_Abstract\<close>: the specification's contract as an abstract ledger on natural
    numbers (\<open>abs_issue\<close>, \<open>abs_transfer\<close>, \<open>abs_destroy\<close>) and the abstraction
    \<open>abs_of\<close>; each call refines its abstract operation (\<open>issue\<close> exactly while
    \<open>NextAssetId\<close> is not the largest 32-bit value).
  \<^item> \<open>Token_Refinement\<close>: \<open>abs_dispatch\<close> and \<open>abs_run\<close>, the abstract ledger's
    dispatch and block, and the refinement lifted to runs: from a state satisfying
    the invariant, a block whose issue calls fit in the ids left is, through
    \<open>abs_of\<close>, the abstract run. Two states that \<open>abs_of\<close> cannot tell apart
    behave the same under every block (the module reads its storage only through
    value-query gets), so a rejected call, whose leftover writes are invisible through
    \<open>abs_of\<close>, can be dropped from a block without changing its outcome.
  \<^item> \<open>Token_Safety\<close>: safety of blocks. A call from any origin other than an account
    never lowers that account's balances (\<open>transfer\<close> credits another account
    without wrapping, under the invariant), so a block with no call signed by an account
    leaves its balances where they were or higher; and in a block within the id space
    the supply of an asset already issued never grows.
  \<^item> \<open>Token_Log\<close>: the event log. \<open>replay\<close> gives each event its meaning on a ledger of natural numbers
    (\<open>apply_event\<close>); in every state reachable within the id space, replaying the
    log rebuilds every balance and supply the getters read (\<open>view_of\<close>), every
    event names an issued asset (\<open>events_wf\<close>), and the storage holds entries
    only for issued assets (\<open>storage_wf\<close>). Both proofs go through the
    refinement of \<open>Token_Refinement\<close>: the abstract calls keep the replay equation.
  \<^item> \<open>Token_Liveness\<close>: what holders can always do. One signed \<open>destroy\<close> per
    holder retires an asset (all its balances and its supply at zero); a successful
    transfer can be sent back, which succeeds and restores all balances and supplies.
  \<^item> \<open>Token_Ordering\<close>: calls on different assets commute, an issue commutes with
    a call on an asset already issued, and two issues in the other order allocate the
    same two ids the other way round (\<open>swap_ids\<close>). Proved on the abstract ledger for each pair of
    call kinds and carried to the module by the refinement (\<open>commute_from_abs\<close>);
    the event log is compared as a multiset (\<open>HOL-Library.Multiset\<close>).
  \<^item> \<open>Token_Results\<close>: the results a block returns. \<open>abs_run_results\<close> collects the
    abstract ledger's results; within the id space it equals \<open>run_results\<close>, so the
    specification decides each call's success and error. \<open>accepted_calls\<close> keeps the
    successful calls of a block along its run; running only those reaches a ledger
    \<open>abs_of\<close> cannot tell apart and returns the block's successful results.
  \<^item> \<open>Token_Checked\<close>: the same three calls under Rust's debug-build arithmetic,
    where an overflowing \<open>+\<close>, \<open>-\<close> or \<open>+=\<close> panics and aborts the block
    (\<open>checked_add\<close>, \<open>checked_sub\<close>, \<open>issue_dbg\<close>, \<open>transfer_dbg\<close>,
    \<open>destroy_dbg\<close>, \<open>dispatch_dbg\<close>, \<open>run_dbg\<close>; \<open>None\<close> is the panic). Within
    the id space and under the invariant a debug block never panics and ends where the
    release block does; a block of issues panics exactly when it reaches \<open>2 ^ 32\<close>
    ids, one issue earlier than the release build's wrap becomes visible; and under
    the invariant any block panics exactly when its signed issues reach the end of the
    id space (\<open>signed_issue_count\<close>), and the call that panics is the first signed
    issue met with \<open>NextAssetId = - 1\<close>, every call before it running as in the
    release build.
  \<^item> this theory: the specification's scenarios A to F run on the model, used as the
    witnesses of the theorems with hypotheses.

  \<^bold>\<open>Bounds.\<close> The only bound in the theorems is the number of issue calls:
  \<open>NextAssetId\<close> is a \<open>u32\<close> advanced by an unchecked \<open>+= 1\<close>, so after \<open>2 ^ 32\<close>
  issues it is back at 0. Below that bound every allocated id is fresh; the
  counterexample \<open>issue_wrap_breaks_conservation\<close> shows the bound cannot be dropped.
  There is no loop in the module, so no fuel is needed; \<open>run\<close> is structural
  recursion over the list of calls.

  \<^bold>\<open>Findings.\<close> (1) After \<open>2 ^ 32\<close> issues the id counter wraps and the next issue
  overwrites the supply of asset 0 while its holders keep their balances: conservation
  breaks, where the specification asks for an atomic failure. (2) A rejected
  zero-balance \<open>destroy\<close> has already removed the caller's storage entry (\<open>take\<close>
  before \<open>ensure!\<close>); the removal is invisible through the getters. (3) \<open>issue\<close>
  returns no id, only the event carries it. (4) The balance arithmetic is unchecked;
  the invariant is what keeps it from wrapping. (5) A failed lookup is reported before
  the amount checks.

  \<^bold>\<open>Plan for the development.\<close> Modelled so far, in this order: the storage
  and its primitives, the events, the three calls, the ledger invariant, dispatch and
  reachability, the abstract specification with its refinement theorems for single
  calls and for runs, safety of blocks, the event log as a complete record of the
  ledger, what holders can always do, the
  ordering of calls within a block, the debug-build semantics of the arithmetic, and
  the results a block returns, and the position in a debug block of the call that
  panics. Nothing further of \<open>token.rs\<close> remains outside the model; what is left
  is listed below.

  \<^bold>\<open>Not modelled.\<close> The SCALE encoding of arguments (\<open>#[compact]\<close>) and the
  storage key hashing (framework code with no effect on the logic); the trait
  \<open>Trait\<close>, which only fixes types (\<open>Balance\<close> is \<open>'w word\<close>, \<open>AccountId\<close> is
  \<open>'acc\<close>) and converts the module's event into the runtime's event enum, an
  injective wrapper outside \<open>src/\<close> that the model leaves out; the account lookup's own
  behaviour (a parameter here); transaction fees and signature checking, which happen
  before dispatch.
\<close>

section \<open>The scenarios of the specification\<close>

text \<open>
  The scenarios A to F of the specification, run on the model with accounts as numbers
  (Alice 1, Bob 2, Carol 3), 64-bit balances and the identity lookup \<open>Some\<close>. Each
  applies one of the functional theorems at a concrete state.
\<close>

definition scenario_A :: "(nat, 64 word) chain" where
  "scenario_A = fst (issue genesis (Signed 1) 1000)"

definition scenario_B :: "(nat, 64 word) chain" where
  "scenario_B = fst (transfer Some scenario_A (Signed 1) 0 2 300)"

definition scenario_full :: "(nat, 64 word) chain" where
  "scenario_full = genesis\<lparr>NextAssetId := - 1\<rparr>"

lemma scenario_A_eq:
  "scenario_A = genesis\<lparr>NextAssetId := 1, Balances := [(0, 1) \<mapsto> 1000],
                       TotalSupply := [0 \<mapsto> 1000], Events := [Issued 0 1 1000]\<rparr>"
  by (simp add: scenario_A_def issue_Signed genesis_def)

lemma scenario_B_eq:
  "scenario_B = genesis\<lparr>NextAssetId := 1, Balances := [(0, 1) \<mapsto> 700, (0, 2) \<mapsto> 300],
                       TotalSupply := [0 \<mapsto> 1000],
                       Events := [Issued 0 1 1000, Transferred 0 1 2 300]\<rparr>"
  by (simp add: scenario_B_def scenario_A_eq transfer_ok_eq balance_def storage_simps genesis_def)

theorem issue_effect_witness:
  "issue (genesis :: (nat, 64 word) chain) (Signed 1) 1000 = (scenario_A, Inr ())
   \<and> balance scenario_A 0 1 = 1000 \<and> total_supply scenario_A 0 = 1000 \<and> NextAssetId scenario_A = 1"
proof -
  have h: "issue (genesis :: (nat, 64 word) chain) (Signed 1) 1000 = (scenario_A, Inr ())"
    by (simp add: scenario_A_def issue_Signed)
  from issue_effect [OF h] h show ?thesis
    by (simp add: genesis_def)
qed


theorem transfer_effect_witness:
  "transfer Some scenario_A (Signed 1) 0 (2::nat) 300 = (scenario_B, Inr ())
   \<and> balance scenario_B 0 1 = 700 \<and> balance scenario_B 0 2 = 300
   \<and> total_supply scenario_B 0 = 1000"
proof -
  have h: "transfer Some scenario_A (Signed 1) 0 (2::nat) 300 = (scenario_B, Inr ())"
    by (simp add: scenario_B_def scenario_A_eq transfer_ok_eq balance_def storage_simps genesis_def)
  from transfer_effect [OF h] h show ?thesis
    by (auto simp: scenario_A_eq scenario_B_eq balance_def total_supply_def storage_simps genesis_def)
qed

theorem transfer_error_witness:
  "transfer Some scenario_B (Signed 1) 0 (2::nat) 0 = (scenario_B, Inl ZeroAmount)
   \<and> transfer Some scenario_B (Signed 2) 0 (1::nat) 9999 = (scenario_B, Inl InsufficientBalance)"
proof -
  have c: "transfer Some scenario_B (Signed 1) 0 (2::nat) 0 = (scenario_B, Inl ZeroAmount)"
    by (simp add: transfer_def)
  have d: "transfer Some scenario_B (Signed 2) 0 (1::nat) 9999 = (scenario_B, Inl InsufficientBalance)"
    by (simp add: transfer_def scenario_B_eq storage_simps genesis_def)
  from transfer_error [OF c] transfer_error [OF d] c d show ?thesis
    by simp
qed

definition scenario_E :: "(nat, 64 word) chain" where
  "scenario_E = fst (destroy scenario_B (Signed 2) 0)"

theorem destroy_effect_witness:
  "destroy scenario_B (Signed 2) 0 = (scenario_E, Inr ())
   \<and> balance scenario_E 0 2 = 0 \<and> total_supply scenario_E 0 = 700
   \<and> Events scenario_E = [Issued 0 1 1000, Transferred 0 1 2 300, Destroyed 0 2 300]"
proof -
  have h: "destroy scenario_B (Signed 2) 0 = (scenario_E, Inr ())"
    by (simp add: scenario_E_def destroy_Signed scenario_B_eq balance_def storage_simps genesis_def)
  from destroy_effect [OF h] h show ?thesis
    by (simp add: scenario_B_eq total_supply_def balance_def storage_simps genesis_def)
qed

theorem destroy_error_witness:
  "destroy scenario_A (Signed 3) 0 = (scenario_A\<lparr>Balances := (Balances scenario_A)((0, 3) := None)\<rparr>, Inl ZeroBalance)
   \<and> balance (fst (destroy scenario_A (Signed 3) 0)) = balance scenario_A
   \<and> total_supply (fst (destroy scenario_A (Signed 3) 0)) = total_supply scenario_A"
proof -
  let ?s' = "scenario_A\<lparr>Balances := (Balances scenario_A)((0, 3) := None)\<rparr>"
  have h: "destroy scenario_A (Signed 3) 0 = (?s', Inl ZeroBalance)"
    by (simp add: destroy_Signed scenario_A_eq balance_def storage_simps genesis_def)
  from destroy_error [OF h] h show ?thesis
    by simp
qed


text \<open>The scenario states satisfy the ledger invariant, evaluated by the simplifier.\<close>

lemma scenario_invs:
  "ledger_inv (genesis :: (nat, 64 word) chain)" "ledger_inv scenario_A" "ledger_inv scenario_B"
  by (auto simp: scenario_A_eq scenario_B_eq ledger_inv_def conserved_def unissued_empty_def
      genesis_def holdings_def balance_def total_supply_def storage_simps)

theorem transfer_exact_nat_witness:
  "ledger_inv scenario_A \<and> transfer Some scenario_A (Signed 1) 0 (2::nat) 300 = (scenario_B, Inr ())
   \<and> unat (balance scenario_B 0 1) = unat (balance scenario_A 0 1) - 300
   \<and> unat (balance scenario_B 0 2) = unat (balance scenario_A 0 2) + 300"
proof -
  have h: "transfer Some scenario_A (Signed 1) 0 (2::nat) 300 = (scenario_B, Inr ())"
    by (simp add: scenario_B_def scenario_A_eq transfer_ok_eq balance_def storage_simps genesis_def)
  from transfer_exact_nat [OF scenario_invs(2) h, of 2] h scenario_invs(2) show ?thesis
    by simp
qed

theorem destroy_exact_nat_witness:
  "ledger_inv scenario_B \<and> destroy scenario_B (Signed 2) 0 = (scenario_E, Inr ())
   \<and> unat (total_supply scenario_E 0) = unat (total_supply scenario_B 0) - unat (balance scenario_B 0 2)"
proof -
  have h: "destroy scenario_B (Signed 2) 0 = (scenario_E, Inr ())"
    by (simp add: scenario_E_def destroy_Signed scenario_B_eq balance_def storage_simps genesis_def)
  from destroy_exact_nat [OF scenario_invs(3) h] h scenario_invs(3) show ?thesis
    by simp
qed


text \<open>The scenario states are reachable: one issue, then a transfer.\<close>

lemma scenario_B_reachable: "reachable (Some :: nat \<Rightarrow> nat option) 1 scenario_B"
proof -
  have "reachable (Some :: nat \<Rightarrow> nat option) (Suc 0) (fst (dispatch Some genesis (Signed 1) (Issue 1000)))"
    by (rule reachable.issue_step [OF reachable.genesis])
  then have "reachable (Some :: nat \<Rightarrow> nat option) 1 scenario_A"
    by (simp add: scenario_A_def)
  then have "reachable (Some :: nat \<Rightarrow> nat option) 1 (fst (dispatch Some scenario_A (Signed 1) (Transfer 0 2 300)))"
    by (rule reachable.other_step) simp
  then show ?thesis
    by (simp add: scenario_B_def)
qed

theorem reachable_conserved_witness:
  "reachable (Some :: nat \<Rightarrow> nat option) 1 scenario_B \<and> (1::nat) < 2 ^ 32
   \<and> unat (total_supply scenario_B 0) = (\<Sum>c \<in> holders (Balances scenario_B) 0. unat (balance scenario_B 0 c))"
proof -
  have n: "(1::nat) < 2 ^ 32"
    by simp
  from reachable_conserved [OF scenario_B_reachable n] scenario_B_reachable n show ?thesis
    by blast
qed

theorem run_refines_witness:
  "ledger_inv (genesis :: (nat, 64 word) chain)
   \<and> unat (NextAssetId (genesis :: (nat, 64 word) chain))
       + issue_count [(Signed (1::nat), Issue (1000 :: 64 word)), (Signed 1, Transfer 0 (2::nat) 300), (Signed 2, Destroy 0)] < 2 ^ 32
   \<and> abs_run Some (abs_of (genesis :: (nat, 64 word) chain))
       (map (map_prod id abs_call) [(Signed (1::nat), Issue (1000 :: 64 word)), (Signed 1, Transfer 0 (2::nat) 300), (Signed 2, Destroy 0)])
     = Some (abs_of (run Some genesis [(Signed (1::nat), Issue (1000 :: 64 word)), (Signed 1, Transfer 0 (2::nat) 300), (Signed 2, Destroy 0)]))"
proof -
  have h: "unat (NextAssetId (genesis :: (nat, 64 word) chain))
       + issue_count [(Signed (1::nat), Issue (1000 :: 64 word)), (Signed 1, Transfer 0 (2::nat) 300), (Signed 2, Destroy 0)] < 2 ^ 32"
    by (simp add: genesis_def)
  from run_refines [OF scenario_invs(1) h, of Some] scenario_invs(1) h show ?thesis
    by blast
qed

theorem run_drop_rejected_witness:
  "snd (dispatch (Some :: nat \<Rightarrow> nat option) scenario_A (Signed 3) (Destroy 0)) = Inl ZeroBalance
   \<and> abs_of (run (Some :: nat \<Rightarrow> nat option) scenario_A
         [(Signed 3, Destroy 0), (Signed 1, Transfer 0 2 (300 :: 64 word))])
     = abs_of (run (Some :: nat \<Rightarrow> nat option) scenario_A [(Signed 1, Transfer 0 2 (300 :: 64 word))])"
proof -
  have h: "snd (dispatch (Some :: nat \<Rightarrow> nat option) scenario_A (Signed 3) (Destroy 0)) = Inl ZeroBalance"
    by (simp add: destroy_Signed scenario_A_eq balance_def storage_simps genesis_def)
  from run_drop_rejected [OF h, of "[(Signed 1, Transfer 0 2 (300 :: 64 word))]"] h show ?thesis
    by blast
qed


theorem issued_ids_sequential_witness:
  "reachable (Some :: nat \<Rightarrow> nat option) 1 scenario_B \<and> (1::nat) < 2 ^ 32
   \<and> map unat (issued_ids (Events scenario_B)) = [0..<unat (NextAssetId scenario_B)]"
proof -
  have n: "(1::nat) < 2 ^ 32"
    by simp
  from issued_ids_sequential [OF scenario_B_reachable n] scenario_B_reachable n show ?thesis
    by blast
qed


theorem dispatch_other_assets_witness:
  "(1 :: asset_id) \<noteq> call_asset scenario_B (Destroy 0 :: (nat, 64 word) call)
   \<and> balance (fst (dispatch (Some :: nat \<Rightarrow> nat option) scenario_B (Signed 2) (Destroy 0))) 1
       = balance scenario_B 1
   \<and> total_supply (fst (dispatch (Some :: nat \<Rightarrow> nat option) scenario_B (Signed 2) (Destroy 0))) 1
       = total_supply scenario_B 1"
proof -
  have h: "(1 :: asset_id) \<noteq> call_asset scenario_B (Destroy 0 :: (nat, 64 word) call)"
    by simp
  from dispatch_other_assets [OF h, of Some "Signed 2"] h show ?thesis
    by blast
qed


theorem run_credit_only_witness:
  "ledger_inv scenario_A
   \<and> unat (NextAssetId scenario_A) + issue_count [(Signed (2::nat), Issue (5 :: 64 word)), (Signed 2, Destroy 0 :: (nat, 64 word) call)] < 2 ^ 32
   \<and> unat (balance scenario_A 0 1)
       \<le> unat (balance (run (Some :: nat \<Rightarrow> nat option) scenario_A [(Signed 2, Issue 5), (Signed 2, Destroy 0)]) 0 1)"
proof -
  have b: "unat (NextAssetId scenario_A) + issue_count [(Signed (2::nat), Issue (5 :: 64 word)), (Signed 2, Destroy 0 :: (nat, 64 word) call)] < 2 ^ 32"
    by (simp add: scenario_A_eq)
  have o: "\<forall>(origin, c) \<in> set [(Signed (2::nat), Issue (5 :: 64 word)), (Signed 2, Destroy 0 :: (nat, 64 word) call)]. origin \<noteq> Signed 1"
    by simp
  from run_credit_only [OF scenario_invs(2) b o, of 0 Some] scenario_invs(2) b show ?thesis
    by blast
qed

theorem run_no_inflation_witness:
  "ledger_inv scenario_B
   \<and> unat (NextAssetId scenario_B) + issue_count [(Signed (2::nat), Destroy 0 :: (nat, 64 word) call), (Signed 1, Issue 7)] < 2 ^ 32
   \<and> (0 :: asset_id) < NextAssetId scenario_B
   \<and> unat (total_supply (run (Some :: nat \<Rightarrow> nat option) scenario_B [(Signed 2, Destroy 0), (Signed 1, Issue 7)]) 0)
       \<le> unat (total_supply scenario_B 0)"
proof -
  have b: "unat (NextAssetId scenario_B) + issue_count [(Signed (2::nat), Destroy 0 :: (nat, 64 word) call), (Signed 1, Issue 7)] < 2 ^ 32"
    by (simp add: scenario_B_eq)
  have lt: "(0 :: asset_id) < NextAssetId scenario_B"
    by (simp add: scenario_B_eq)
  from run_no_inflation [OF scenario_invs(3) b lt, of Some] scenario_invs(3) b lt show ?thesis
    by blast
qed


theorem events_replay_witness:
  "reachable (Some :: nat \<Rightarrow> nat option) 1 scenario_B \<and> (1::nat) < 2 ^ 32
   \<and> replay (map (map_event id unat) (Events scenario_B)) = view_of scenario_B"
proof -
  have n: "(1::nat) < 2 ^ 32"
    by simp
  from events_replay [OF scenario_B_reachable n] scenario_B_reachable n show ?thesis
    by blast
qed

theorem reachable_events_wf_witness:
  "reachable (Some :: nat \<Rightarrow> nat option) 1 scenario_B \<and> (1::nat) < 2 ^ 32 \<and> events_wf scenario_B"
proof -
  have n: "(1::nat) < 2 ^ 32"
    by simp
  from reachable_events_wf [OF scenario_B_reachable n] scenario_B_reachable n show ?thesis
    by blast
qed

theorem destroy_all_retires_supply_witness:
  "ledger_inv scenario_B \<and> holders (Balances scenario_B) 0 \<subseteq> set [1, 2]
   \<and> total_supply (run (Some :: nat \<Rightarrow> nat option) scenario_B
        (map (\<lambda>c. (Signed c, Destroy 0 :: (nat, 64 word) call)) [1, 2])) 0 = 0"
proof -
  have h: "holders (Balances scenario_B) 0 \<subseteq> set [1, 2]"
    by (auto simp: scenario_B_eq genesis_def holders_def split: if_splits)
  from destroy_all_retires_supply [OF scenario_invs(3) h, of "Some :: nat \<Rightarrow> nat option"] scenario_invs(3) h
  show ?thesis
    by blast
qed

theorem transfer_back_roundtrip_witness:
  "ledger_inv scenario_A \<and> transfer Some scenario_A (Signed 1) 0 (2::nat) 300 = (scenario_B, Inr ())
   \<and> (\<exists>s2. transfer Some scenario_B (Signed 2) 0 (1::nat) 300 = (s2, Inr ())
         \<and> balance s2 = balance scenario_A \<and> total_supply s2 = total_supply scenario_A)"
proof -
  have h: "transfer Some scenario_A (Signed 1) 0 (2::nat) 300 = (scenario_B, Inr ())"
    by (simp add: scenario_B_def scenario_A_eq transfer_ok_eq balance_def storage_simps genesis_def)
  have l: "Some (2::nat) = Some 2" and r: "Some (1::nat) = Some 1"
    by simp_all
  from transfer_back_roundtrip [OF scenario_invs(2) h l r] scenario_invs(2) h show ?thesis
    by blast
qed


theorem calls_on_different_assets_commute_witness:
  "ledger_inv scenario_B \<and> ledger_asset (Transfer 0 (2::nat) (100 :: 64 word)) = Some 0
   \<and> ledger_asset (Destroy 1 :: (nat, 64 word) call) = Some 1 \<and> (0 :: asset_id) \<noteq> 1
   \<and> balance (run (Some :: nat \<Rightarrow> nat option) scenario_B [(Signed 2, Destroy 1), (Signed 1, Transfer 0 2 100)])
     = balance (run (Some :: nat \<Rightarrow> nat option) scenario_B [(Signed 1, Transfer 0 2 100), (Signed 2, Destroy 1)])"
proof -
  have a1: "ledger_asset (Transfer 0 (2::nat) (100 :: 64 word)) = Some 0"
    and a2: "ledger_asset (Destroy 1 :: (nat, 64 word) call) = Some 1"
    and ne: "(0 :: asset_id) \<noteq> 1"
    by simp_all
  from calls_on_different_assets_commute [OF scenario_invs(3) a1 a2 ne, of Some "Signed 2" "Signed 1"]
    scenario_invs(3) a1 a2 ne
  show ?thesis
    by blast
qed


theorem run_dbg_agrees_witness:
  "ledger_inv (genesis :: (nat, 64 word) chain)
   \<and> unat (NextAssetId (genesis :: (nat, 64 word) chain))
       + issue_count [(Signed (1::nat), Issue (1000 :: 64 word)), (Signed 1, Transfer 0 (2::nat) 300), (Signed 2, Destroy 0)] < 2 ^ 32
   \<and> run_dbg Some (genesis :: (nat, 64 word) chain)
       [(Signed (1::nat), Issue (1000 :: 64 word)), (Signed 1, Transfer 0 (2::nat) 300), (Signed 2, Destroy 0)]
     = Some (run Some genesis [(Signed (1::nat), Issue (1000 :: 64 word)), (Signed 1, Transfer 0 (2::nat) 300), (Signed 2, Destroy 0)])"
proof -
  have h: "unat (NextAssetId (genesis :: (nat, 64 word) chain))
       + issue_count [(Signed (1::nat), Issue (1000 :: 64 word)), (Signed 1, Transfer 0 (2::nat) 300), (Signed 2, Destroy 0)] < 2 ^ 32"
    by (simp add: genesis_def)
  from run_dbg_agrees [OF scenario_invs(1) h, of Some] scenario_invs(1) h show ?thesis
    by blast
qed

theorem run_dbg_issues_panic_iff_witness:
  "run_dbg (Some :: nat \<Rightarrow> nat option) (genesis :: (nat, 64 word) chain) (replicate (2 ^ 32) (Signed 1, Issue 5)) = None"
  using run_dbg_issues_panic_iff [of "Some :: nat \<Rightarrow> nat option" "genesis :: (nat, 64 word) chain" "2 ^ 32" 1 5]
  by (simp add: genesis_def)


theorem issue_commutes_with_issued_asset_calls_witness:
  "ledger_inv scenario_B \<and> NextAssetId scenario_B \<noteq> - 1
   \<and> ledger_asset (Transfer 0 (2::nat) (100 :: 64 word)) = Some 0 \<and> (0 :: asset_id) < NextAssetId scenario_B
   \<and> balance (run (Some :: nat \<Rightarrow> nat option) scenario_B [(Signed 1, Transfer 0 2 100), (Signed 3, Issue 50)])
     = balance (run (Some :: nat \<Rightarrow> nat option) scenario_B [(Signed 3, Issue 50), (Signed 1, Transfer 0 2 100)])"
proof -
  have nw: "NextAssetId scenario_B \<noteq> - 1" and lt: "(0 :: asset_id) < NextAssetId scenario_B"
    by (simp_all add: scenario_B_eq)
  have a: "ledger_asset (Transfer 0 (2::nat) (100 :: 64 word)) = Some 0"
    by simp
  from issue_commutes_with_issued_asset_calls [OF scenario_invs(3) nw a lt, of Some "Signed 1" "Signed 3" 50]
    scenario_invs(3) nw a lt
  show ?thesis
    by blast
qed


theorem run_events_count_witness:
  "run_results (Some :: nat \<Rightarrow> nat option) scenario_B [(Signed 2, Destroy 0), (Signed 3, Destroy 0 :: (nat, 64 word) call)]
     = [Inr (), Inl ZeroBalance]
   \<and> length (Events (run (Some :: nat \<Rightarrow> nat option) scenario_B
        [(Signed 2, Destroy 0), (Signed 3, Destroy 0 :: (nat, 64 word) call)])) = length (Events scenario_B) + 1"
proof -
  have r: "run_results (Some :: nat \<Rightarrow> nat option) scenario_B [(Signed 2, Destroy 0), (Signed 3, Destroy 0 :: (nat, 64 word) call)]
     = [Inr (), Inl ZeroBalance]"
    by (simp add: destroy_Signed scenario_B_eq balance_def storage_simps genesis_def)
  obtain es where e: "Events (run (Some :: nat \<Rightarrow> nat option) scenario_B
        [(Signed 2, Destroy 0), (Signed 3, Destroy 0 :: (nat, 64 word) call)]) = Events scenario_B @ es"
    and l: "length es = length (filter (Not \<circ> isl) (run_results (Some :: nat \<Rightarrow> nat option) scenario_B
        [(Signed 2, Destroy 0), (Signed 3, Destroy 0 :: (nat, 64 word) call)]))"
    using run_events_count [of Some scenario_B "[(Signed 2, Destroy 0), (Signed 3, Destroy 0 :: (nat, 64 word) call)]"]
    by blast
  from l r have "length es = 1"
    by simp
  with e r show ?thesis
    by simp
qed


theorem run_results_refine_witness:
  "ledger_inv (genesis :: (nat, 64 word) chain)
   \<and> unat (NextAssetId (genesis :: (nat, 64 word) chain))
       + issue_count [(Signed (1::nat), Issue (1000 :: 64 word)), (Signed 1, Transfer 0 (2::nat) 300), (Signed 2, Destroy 0)] < 2 ^ 32
   \<and> abs_run_results Some (abs_of (genesis :: (nat, 64 word) chain))
       (map (map_prod id abs_call) [(Signed (1::nat), Issue (1000 :: 64 word)), (Signed 1, Transfer 0 (2::nat) 300), (Signed 2, Destroy 0)])
     = Some (run_results Some genesis [(Signed (1::nat), Issue (1000 :: 64 word)), (Signed 1, Transfer 0 (2::nat) 300), (Signed 2, Destroy 0)])"
proof -
  have h: "unat (NextAssetId (genesis :: (nat, 64 word) chain))
       + issue_count [(Signed (1::nat), Issue (1000 :: 64 word)), (Signed 1, Transfer 0 (2::nat) 300), (Signed 2, Destroy 0)] < 2 ^ 32"
    by (simp add: genesis_def)
  from run_results_refine [OF scenario_invs(1) h, of Some] scenario_invs(1) h show ?thesis
    by blast
qed

theorem run_accepted_calls_witness:
  "accepted_calls (Some :: nat \<Rightarrow> nat option) scenario_A [(Signed 3, Destroy 0), (Signed 1, Transfer 0 2 (300 :: 64 word))]
     = [(Signed 1, Transfer 0 2 300)]
   \<and> abs_of (run (Some :: nat \<Rightarrow> nat option) scenario_A [(Signed 1, Transfer 0 2 (300 :: 64 word))])
     = abs_of (run (Some :: nat \<Rightarrow> nat option) scenario_A [(Signed 3, Destroy 0), (Signed 1, Transfer 0 2 (300 :: 64 word))])"
proof -
  have a: "accepted_calls (Some :: nat \<Rightarrow> nat option) scenario_A [(Signed 3, Destroy 0), (Signed 1, Transfer 0 2 (300 :: 64 word))]
     = [(Signed 1, Transfer 0 2 300)]"
    by (simp add: destroy_Signed transfer_Signed_result scenario_A_eq balance_def storage_simps genesis_def)
  from conjunct1 [OF run_accepted_calls [of Some scenario_A "[(Signed 3, Destroy 0), (Signed 1, Transfer 0 2 (300 :: 64 word))]"]] a
  show ?thesis
    by (simp only: a)
qed

theorem issues_swap_ids_witness:
  "ledger_inv scenario_B \<and> NextAssetId scenario_B \<noteq> - 1
   \<and> balance (run (Some :: nat \<Rightarrow> nat option) scenario_B [(Signed 2, Issue 7), (Signed 1, Issue 5)])
     = balance (run (Some :: nat \<Rightarrow> nat option) scenario_B [(Signed 1, Issue 5), (Signed 2, Issue 7)]) \<circ> swap_ids 1 2"
proof -
  have nw: "NextAssetId scenario_B \<noteq> - 1" and n: "NextAssetId scenario_B = 1"
    by (simp_all add: scenario_B_eq)
  from issues_swap_ids [OF scenario_invs(3) nw, of Some 2 7 1 5] scenario_invs(3) nw n
  show ?thesis
    by simp
qed


theorem run_dbg_panics_iff_witness:
  "ledger_inv scenario_B
   \<and> run_dbg (Some :: nat \<Rightarrow> nat option) scenario_B [(Signed 1, Issue 5), (Unsigned, Issue 9), (Signed 2, Destroy 0)] \<noteq> None"
proof -
  have "\<not> 2 ^ 32 \<le> unat (NextAssetId scenario_B)
      + signed_issue_count [(Signed (1::nat), Issue (5 :: 64 word)), (Unsigned, Issue 9), (Signed 2, Destroy 0 :: (nat, 64 word) call)]"
    by (simp add: scenario_B_eq)
  with run_dbg_panics_iff [OF scenario_invs(3), of Some
      "[(Signed 1, Issue 5), (Unsigned, Issue 9), (Signed 2, Destroy 0 :: (nat, 64 word) call)]"] scenario_invs(3)
  show ?thesis
    by blast
qed


theorem reachable_storage_wf_witness:
  "reachable (Some :: nat \<Rightarrow> nat option) 1 scenario_B \<and> (1::nat) < 2 ^ 32 \<and> storage_wf scenario_B"
proof -
  have n: "(1::nat) < 2 ^ 32"
    by simp
  from reachable_storage_wf [OF scenario_B_reachable n] scenario_B_reachable n show ?thesis
    by blast
qed


theorem run_dbg_panic_position_witness:
  "ledger_inv scenario_full
   \<and> run_dbg (Some :: nat \<Rightarrow> nat option) scenario_full [(Signed 1, Transfer 0 2 5), (Signed 1, Issue 3)] = None
   \<and> (\<exists>pre who tot post. [(Signed 1, Transfer 0 2 5), (Signed 1, Issue (3 :: 64 word))] = pre @ (Signed who, Issue tot) # post
        \<and> run_dbg (Some :: nat \<Rightarrow> nat option) scenario_full pre = Some (run Some scenario_full pre)
        \<and> NextAssetId (run Some scenario_full pre) = - 1
        \<and> signed_issue_count pre = 2 ^ 32 - 1 - unat (NextAssetId scenario_full))"
proof -
  have i: "ledger_inv scenario_full"
    by (simp add: scenario_full_def ledger_inv_def conserved_def unissued_empty_def genesis_def holdings_def
        balance_def total_supply_def storage_simps)
  have p: "run_dbg (Some :: nat \<Rightarrow> nat option) scenario_full [(Signed 1, Transfer 0 2 5), (Signed 1, Issue 3)] = None"
    by (simp add: scenario_full_def genesis_def transfer_dbg_def issue_dbg_def checked_add_one_asset_id storage_simps)
  from run_dbg_panic_position [OF i p] i p show ?thesis
    by blast
qed

end
